theory Spec2Isabelle
  imports Complex_Main "HOL-Library.Multiset" "HOL-Library.AList"
begin

section \<open>Python values used by the scripts\<close>

text \<open>
  A Python \<^verbatim>\<open>float\<close> is a finite number, one of the two infinities, or NaN.
  Every finite float is a real number and two finite floats compare as the reals they
  denote, so \<open>Fin\<close> carries a real. Comparisons with NaN are false, as in IEEE 754.
\<close>

datatype pyfloat = Fin real | PInf | NInf | NaN

text \<open>\<^verbatim>\<open>a <= b\<close> on floats.\<close>

fun fle :: "pyfloat \<Rightarrow> pyfloat \<Rightarrow> bool" where
  "fle NaN _ = False"
| "fle _ NaN = False"
| "fle NInf _ = True"
| "fle _ PInf = True"
| "fle (Fin a) (Fin b) = (a \<le> b)"
| "fle PInf _ = False"
| "fle (Fin a) NInf = False"

text \<open>\<^verbatim>\<open>a < b\<close> on floats.\<close>

fun flt :: "pyfloat \<Rightarrow> pyfloat \<Rightarrow> bool" where
  "flt NaN _ = False"
| "flt _ NaN = False"
| "flt PInf _ = False"
| "flt _ NInf = False"
| "flt (Fin a) (Fin b) = (a < b)"
| "flt NInf _ = True"
| "flt (Fin a) PInf = True"

text \<open>Exceptions that the modelled code can raise.\<close>

datatype py_error = ValueError | OverflowError | KeyError | OSError

text \<open>
  A cell of a table read by \<^verbatim>\<open>pandas.read_csv\<close>: an integer, a float (a missing
  field is the float NaN), a boolean, or text.
\<close>

datatype cell = IntCell int | FloatCell pyfloat | BoolCell bool | StrCell string

text \<open>\<^verbatim>\<open>pd.isna\<close> on a cell.\<close>

fun isna :: "cell \<Rightarrow> bool" where
  "isna (FloatCell NaN) = True"
| "isna _ = False"

text \<open>
  \<^verbatim>\<open>int(s)\<close> for text, on ASCII input: surrounding whitespace is stripped, one sign is
  allowed, then decimal digits, where single underscores may stand between digits.
  Anything else raises ValueError (\<open>None\<close> here).
\<close>

definition is_space :: "char \<Rightarrow> bool" where
  "is_space c = (of_char c \<in> {9, 10, 11, 12, 13, 28, 29, 30, 31, 32 :: nat})"

definition strip :: "string \<Rightarrow> string" where
  "strip s = rev (dropWhile is_space (rev (dropWhile is_space s)))"

definition digit_val :: "char \<Rightarrow> nat option" where
  "digit_val c =
     (if 48 \<le> (of_char c :: nat) \<and> (of_char c :: nat) \<le> 57 then Some (of_char c - 48) else None)"

fun parse_digits :: "nat \<Rightarrow> string \<Rightarrow> nat option" where
  "parse_digits acc [] = Some acc"
| "parse_digits acc [c] =
     (case digit_val c of None \<Rightarrow> None | Some v \<Rightarrow> Some (10 * acc + v))"
| "parse_digits acc (c # d # ds) =
     (if c = CHR ''_'' then
        (case digit_val d of None \<Rightarrow> None | Some v \<Rightarrow> parse_digits (10 * acc + v) ds)
      else
        (case digit_val c of None \<Rightarrow> None | Some v \<Rightarrow> parse_digits (10 * acc + v) (d # ds)))"

definition parse_nat :: "string \<Rightarrow> nat option" where
  "parse_nat s =
     (case s of
        [] \<Rightarrow> None
      | c # cs \<Rightarrow> (case digit_val c of None \<Rightarrow> None | Some v \<Rightarrow> parse_digits v cs))"

definition int_of_str :: "string \<Rightarrow> int option" where
  "int_of_str s =
     (case strip s of
        [] \<Rightarrow> None
      | c # cs \<Rightarrow>
          (if c = CHR ''-'' then map_option (\<lambda>n. - int n) (parse_nat cs)
           else if c = CHR ''+'' then map_option int (parse_nat cs)
           else map_option int (parse_nat (c # cs))))"

text \<open>
  \<^verbatim>\<open>int(x)\<close> on a cell: a float is truncated towards zero, an infinity raises
  OverflowError, NaN and text that is no integer literal raise ValueError.
\<close>

fun py_int :: "cell \<Rightarrow> py_error + int" where
  "py_int (IntCell i) = Inr i"
| "py_int (BoolCell b) = Inr (if b then 1 else 0)"
| "py_int (FloatCell (Fin r)) = Inr (if 0 \<le> r then \<lfloor>r\<rfloor> else \<lceil>r\<rceil>)"
| "py_int (FloatCell NaN) = Inl ValueError"
| "py_int (FloatCell _) = Inl OverflowError"
| "py_int (StrCell s) = (case int_of_str s of None \<Rightarrow> Inl ValueError | Some i \<Rightarrow> Inr i)"

text \<open>\<^verbatim>\<open>str(n)\<close> for an integer: its decimal digits.\<close>

definition digit_char :: "nat \<Rightarrow> char" where
  "digit_char n = ''0123456789'' ! n"

fun str_nat :: "nat \<Rightarrow> string" where
  "str_nat n = (if n < 10 then [digit_char n] else str_nat (n div 10) @ [digit_char (n mod 10)])"

definition str_int :: "int \<Rightarrow> string" where
  "str_int i = (if i < 0 then CHR ''-'' # str_nat (nat (- i)) else str_nat (nat i))"

text \<open>
  A table as pandas holds it: the column labels and, per row, the cells in column order.
  A row handed out by \<^verbatim>\<open>iterrows\<close> is a Series: the labels with that row's cells.
\<close>

record dataframe =
  columns :: "string list"
  rows :: "cell list list"

type_synonym series = "string list \<times> cell list"

definition iterrows :: "dataframe \<Rightarrow> series list" where
  "iterrows df = map (\<lambda>vals. (columns df, vals)) (rows df)"

text \<open>\<^verbatim>\<open>col in row.index\<close> (for a Series, \<^verbatim>\<open>col in row\<close> is the same test).\<close>

definition in_index :: "string \<Rightarrow> series \<Rightarrow> bool" where
  "in_index col row = (col \<in> set (fst row))"

text \<open>
  The cell under a label that is in the index; a record with too few fields was padded
  with NaN when the table was read.
\<close>

definition cell_at :: "series \<Rightarrow> string \<Rightarrow> cell" where
  "cell_at row col =
     (case map_of (zip (fst row) (snd row)) col of None \<Rightarrow> FloatCell NaN | Some c \<Rightarrow> c)"

text \<open>\<^verbatim>\<open>row[col]\<close>: KeyError when the label is not in the index.\<close>

definition getitem :: "series \<Rightarrow> string \<Rightarrow> py_error + cell" where
  "getitem row col = (if in_index col row then Inr (cell_at row col) else Inl KeyError)"

section \<open>sample\_tts\_files.py\<close>

subsection \<open>Bucket classifier\<close>

text \<open>
  \<^verbatim>\<open>BUCKET_DEFS\<close>: name -> (low inclusive, high exclusive or None for open-ended).
  The dictionary is iterated in insertion order, so it is an association list.
\<close>

definition BUCKET_DEFS :: "(string \<times> real \<times> real option) list" where
  "BUCKET_DEFS =
    [(''[0, 1)'', 0, Some 1),
     (''[1, 5)'', 1, Some 5),
     (''[5, 10)'', 5, Some 10),
     (''[10, 15)'', 10, Some 15),
     (''[15, 20)'', 15, Some 20),
     (''[20, 25)'', 20, Some 25),
     (''[25, 30)'', 25, Some 30),
     (''[30+)'', 30, None)]"

text \<open>
  The loop of \<^verbatim>\<open>assign_bucket\<close> over the items of a bucket table; falling off the
  end is \<^verbatim>\<open>return None\<close>.
\<close>

fun assign_bucket_in :: "(string \<times> real \<times> real option) list \<Rightarrow> pyfloat \<Rightarrow> string option" where
  "assign_bucket_in [] duration = None"
| "assign_bucket_in ((name, lo, hi) # rest) duration =
     (case hi of
        None \<Rightarrow> (if fle (Fin lo) duration then Some name else assign_bucket_in rest duration)
      | Some h \<Rightarrow>
          (if fle (Fin lo) duration \<and> flt duration (Fin h) then Some name
           else assign_bucket_in rest duration))"

definition assign_bucket :: "pyfloat \<Rightarrow> string option" where
  "assign_bucket duration = assign_bucket_in BUCKET_DEFS duration"

text \<open>
  The range a table entry stands for, as the comment above \<^verbatim>\<open>BUCKET_DEFS\<close> reads:
  low inclusive, high exclusive, no upper bound when the high end is None.
\<close>

definition in_bucket_range :: "string \<times> real \<times> real option \<Rightarrow> pyfloat \<Rightarrow> bool" where
  "in_bucket_range e d =
     (case e of (name, lo, hi) \<Rightarrow>
        (case hi of None \<Rightarrow> fle (Fin lo) d | Some h \<Rightarrow> fle (Fin lo) d \<and> flt d (Fin h)))"

subsection \<open>The host: file system, audio probe and library functions\<close>

text \<open>
  What the scripts get from the operating system and from libraries is a parameter of
  the model: the functions of \<^verbatim>\<open>os.path\<close> on path names (\<^verbatim>\<open>join\<close>, \<^verbatim>\<open>splitext\<close>,
  \<^verbatim>\<open>relpath\<close>, \<^verbatim>\<open>normpath\<close>, \<^verbatim>\<open>dirname\<close>) and \<^verbatim>\<open>os.sep\<close>, which depend on the
  platform; the directory tree (\<^verbatim>\<open>os.path.isdir\<close>, and \<open>walk\<close>, which gives for a
  directory the pairs of dirpath and filenames in the order \<^verbatim>\<open>os.walk\<close> yields them);
  the audio probe \<^verbatim>\<open>soundfile.info\<close> (frames and sample rate, or \<open>None\<close> when it
  raises); the float quotient \<^verbatim>\<open>float(a) / float(b)\<close> and \<^verbatim>\<open>round(x, 3)\<close>, with the
  rounding of the platform; \<^verbatim>\<open>str\<close> of a float; and \<^verbatim>\<open>pd.read_csv\<close> (path and
  separator; the table, or the exception when the file cannot be read). Writing the
  output file is not modelled beyond the rows written.
\<close>

record host =
  path_join :: "string \<Rightarrow> string \<Rightarrow> string"
  isdir :: "string \<Rightarrow> bool"
  walk :: "string \<Rightarrow> (string \<times> string list) list"
  splitext :: "string \<Rightarrow> string \<times> string"
  relpath :: "string \<Rightarrow> string \<Rightarrow> string"
  normpath :: "string \<Rightarrow> string"
  sep :: char
  sf_info :: "string \<Rightarrow> (int \<times> int) option"
  float_div :: "int \<Rightarrow> int \<Rightarrow> pyfloat"
  round3 :: "pyfloat \<Rightarrow> pyfloat"
  str_float :: "pyfloat \<Rightarrow> string"
  read_csv :: "string \<Rightarrow> string \<Rightarrow> py_error + dataframe"
  dirname :: "string \<Rightarrow> string"

text \<open>\<^verbatim>\<open>str(x)\<close> on a cell.\<close>

fun py_str :: "host \<Rightarrow> cell \<Rightarrow> string" where
  "py_str h (StrCell s) = s"
| "py_str h (IntCell i) = str_int i"
| "py_str h (BoolCell b) = (if b then ''True'' else ''False'')"
| "py_str h (FloatCell f) = str_float h f"

text \<open>
  The pseudo-random generator \<^verbatim>\<open>random.Random\<close> is a library class: its state is a
  type parameter, \<open>Random\<close> builds the state from a seed, and \<open>sample\<close> is
  \<^verbatim>\<open>rng.sample(population, k)\<close>, which returns the chosen list and leaves the generator
  in a new state.
\<close>

record ('r, 'a) pyrandom =
  Random :: "int \<Rightarrow> 'r"
  sample :: "'r \<Rightarrow> 'a list \<Rightarrow> nat \<Rightarrow> 'a list \<times> 'r"

text \<open>
  The documented contract of \<^verbatim>\<open>sample\<close> for \<open>k\<close> at most the population's length:
  a list of length \<open>k\<close> whose elements are taken from pairwise different positions of the
  population.
\<close>

definition sample_contract :: "('r \<Rightarrow> 'a list \<Rightarrow> nat \<Rightarrow> 'a list \<times> 'r) \<Rightarrow> bool" where
  "sample_contract smp =
     (\<forall>rng xs k. k \<le> length xs \<longrightarrow>
        length (fst (smp rng xs k)) = k \<and> mset (fst (smp rng xs k)) \<subseteq># mset xs)"

subsection \<open>Messages\<close>

text \<open>What the sampler prints, one constructor per \<^verbatim>\<open>print\<close> call of the script.\<close>

datatype event =
    WarnCouldNotRead string
  | WarnFolderNotFound string
  | InfoFolderFound string nat
  | InfoTotalIndexed nat
  | WarnNoFiles string string int
  | InfoTakingAll string string int nat
  | InfoLoadedPlan nat string
  | WarnNoBucketed string
  | WarnTargetShort string int nat
  | InfoFinal nat
  | InfoWrote string

subsection \<open>File records and the index\<close>

record FileInfo =
  folder :: string
  path :: string
  rel_path :: string
  duration :: pyfloat
  bucket :: "string option"

definition AUDIO_EXTENSIONS :: "string list" where
  "AUDIO_EXTENSIONS = [''.wav'', ''.flac'', ''.mp3'', ''.m4a'', ''.ogg'']"

text \<open>\<^verbatim>\<open>str.lower\<close> on ASCII letters.\<close>

definition lower_char :: "char \<Rightarrow> char" where
  "lower_char c =
     (if 65 \<le> (of_char c :: nat) \<and> (of_char c :: nat) \<le> 90 then char_of (of_char c + 32 :: nat) else c)"

definition is_audio_file :: "host \<Rightarrow> string \<Rightarrow> bool" where
  "is_audio_file h p = (map lower_char (snd (splitext h p)) \<in> set AUDIO_EXTENSIONS)"

text \<open>
  \<^verbatim>\<open>get_duration_seconds\<close>: the duration with the messages printed. An exception of the
  probe is caught and reported; a sample rate that is not positive gives None silently.
\<close>

definition get_duration_seconds :: "host \<Rightarrow> string \<Rightarrow> pyfloat option \<times> event list" where
  "get_duration_seconds h p =
     (case sf_info h p of
        None \<Rightarrow> (None, [WarnCouldNotRead p])
      | Some (frames, samplerate) \<Rightarrow>
          (if samplerate > 0 then (Some (float_div h frames samplerate), []) else (None, [])))"

definition find_files_in_folder :: "host \<Rightarrow> string \<Rightarrow> string \<Rightarrow> string list \<times> event list" where
  "find_files_in_folder h root_dir folder_key =
     (let folder_path = path_join h root_dir folder_key in
      if \<not> isdir h folder_path then ([], [WarnFolderNotFound folder_path])
      else
        (concat (map (\<lambda>(dirpath, filenames).
            filter (is_audio_file h) (map (path_join h dirpath) filenames))
          (walk h folder_path)), []))"

text \<open>
  \<^verbatim>\<open>load_sampling_plan\<close>. \<^verbatim>\<open>rename\<close> relabels every column called group.
\<close>

definition rename_columns :: "string \<Rightarrow> string \<Rightarrow> dataframe \<Rightarrow> dataframe" where
  "rename_columns old new df = df\<lparr>columns := map (\<lambda>c. if c = old then new else c) (columns df)\<rparr>"

definition load_sampling_plan :: "host \<Rightarrow> string \<Rightarrow> py_error + dataframe" where
  "load_sampling_plan h plan_csv =
     (case read_csv h plan_csv '','' of
        Inl e \<Rightarrow> Inl e
      | Inr df0 \<Rightarrow>
          (let df = (if ''group'' \<in> set (columns df0) \<and> ''Folder'' \<notin> set (columns df0)
                     then rename_columns ''group'' ''Folder'' df0 else df0)
           in if ''Folder'' \<notin> set (columns df) then Inl ValueError else Inr df))"

text \<open>The inner loop of \<^verbatim>\<open>build_file_index\<close> over the files of one folder.\<close>

fun index_files :: "host \<Rightarrow> string \<Rightarrow> string \<Rightarrow> string list \<Rightarrow> FileInfo list \<times> event list" where
  "index_files h audio_root folder_key [] = ([], [])"
| "index_files h audio_root folder_key (f # fs) =
     (let (dur, log1) = get_duration_seconds h f;
          (others, log2) = index_files h audio_root folder_key fs
      in case dur of
           None \<Rightarrow> (others, log1 @ log2)
         | Some d \<Rightarrow>
             (\<lparr>folder = folder_key, path = f, rel_path = relpath h f audio_root,
               duration = d, bucket = assign_bucket d\<rparr> # others, log1 @ log2))"

text \<open>The outer loop over the rows of the plan; the files found are appended in row order.\<close>

fun index_rows :: "host \<Rightarrow> string \<Rightarrow> series list \<Rightarrow> py_error + (FileInfo list \<times> event list)" where
  "index_rows h audio_root [] = Inr ([], [])"
| "index_rows h audio_root (row # rest) =
     (case getitem row ''Folder'' of
        Inl e \<Rightarrow> Inl e
      | Inr c \<Rightarrow>
          (let folder_key = py_str h c;
               (files, log1) = find_files_in_folder h audio_root folder_key;
               (infos, log2) = index_files h audio_root folder_key files
           in case index_rows h audio_root rest of
                Inl e \<Rightarrow> Inl e
              | Inr (others, log3) \<Rightarrow>
                  Inr (infos @ others,
                       log1 @ [InfoFolderFound folder_key (length files)] @ log2 @ log3)))"

definition build_file_index :: "host \<Rightarrow> string \<Rightarrow> dataframe \<Rightarrow> py_error + (FileInfo list \<times> event list)" where
  "build_file_index h audio_root plan_df =
     (case index_rows h audio_root (iterrows plan_df) of
        Inl e \<Rightarrow> Inl e
      | Inr (all_files, msgs) \<Rightarrow> Inr (all_files, msgs @ [InfoTotalIndexed (length all_files)]))"

text \<open>
  \<^verbatim>\<open>build_folder_bucket_map\<close>. A dictionary is an association list in insertion order;
  \<^verbatim>\<open>setdefault\<close> followed by the in-place append is an update of the entry.
\<close>

definition dict_get :: "('k \<times> 'v) list \<Rightarrow> 'k \<Rightarrow> 'v \<Rightarrow> 'v" where
  "dict_get d k dflt = (case map_of d k of None \<Rightarrow> dflt | Some v \<Rightarrow> v)"

fun folder_bucket_loop ::
  "(string \<times> (string \<times> FileInfo list) list) list \<Rightarrow> FileInfo list
    \<Rightarrow> (string \<times> (string \<times> FileInfo list) list) list" where
  "folder_bucket_loop mapping [] = mapping"
| "folder_bucket_loop mapping (fi # files) =
     (case bucket fi of
        None \<Rightarrow> folder_bucket_loop mapping files
      | Some b \<Rightarrow>
          (let folder_map = dict_get mapping (folder fi) [];
               bucket_list = dict_get folder_map b []
           in folder_bucket_loop
                (AList.update (folder fi) (AList.update b (bucket_list @ [fi]) folder_map) mapping)
                files))"

definition build_folder_bucket_map ::
  "FileInfo list \<Rightarrow> (string \<times> (string \<times> FileInfo list) list) list" where
  "build_folder_bucket_map files = folder_bucket_loop [] files"

subsection \<open>Per-folder sampler\<close>

text \<open>
  The count a row requests in one of its columns:
  \<^verbatim>\<open>int(folder_row[col]) if not pd.isna(folder_row[col]) else 0\<close>, which may raise.
\<close>

definition requested_count :: "series \<Rightarrow> string \<Rightarrow> py_error + int" where
  "requested_count folder_row col =
     (if \<not> isna (cell_at folder_row col) then py_int (cell_at folder_row col) else Inr 0)"

text \<open>
  The first loop of \<^verbatim>\<open>sample_for_folder\<close>: the requested count per bucket, in the order
  of the bucket names.
\<close>

fun requested_loop :: "series \<Rightarrow> string list \<Rightarrow> (string \<times> int) list \<Rightarrow> py_error + (string \<times> int) list" where
  "requested_loop folder_row [] requested = Inr requested"
| "requested_loop folder_row (bucket_name # rest) requested =
     (let col = ''Samples '' @ bucket_name in
      if in_index col folder_row then
        (case requested_count folder_row col of
           Inl e \<Rightarrow> Inl e
         | Inr n \<Rightarrow>
             (if n > 0
              then requested_loop folder_row rest (AList.update bucket_name n requested)
              else requested_loop folder_row rest requested))
      else requested_loop folder_row rest requested)"

text \<open>
  The second loop: per requested bucket nothing (with a warning), all available files, or
  a random sample. The result is the selection, the generator's state and the messages.
\<close>

fun sample_loop ::
  "('r, FileInfo) pyrandom \<Rightarrow> string \<Rightarrow> (string \<times> FileInfo list) list \<Rightarrow> (string \<times> int) list \<Rightarrow> 'r
    \<Rightarrow> FileInfo list \<times> 'r \<times> event list" where
  "sample_loop rnd fld folder_buckets [] rng = ([], rng, [])"
| "sample_loop rnd fld folder_buckets ((bucket_name, n_req) # rest) rng =
     (let available = dict_get folder_buckets bucket_name [] in
      if available = [] then
        (let (selected, rng', msgs) = sample_loop rnd fld folder_buckets rest rng
         in (selected, rng', WarnNoFiles fld bucket_name n_req # msgs))
      else if int (length available) \<le> n_req then
        (let (selected, rng', msgs) = sample_loop rnd fld folder_buckets rest rng
         in (available @ selected, rng',
             InfoTakingAll fld bucket_name n_req (length available) # msgs))
      else
        (let (chosen, rng1) = sample rnd rng available (nat n_req);
             (selected, rng', msgs) = sample_loop rnd fld folder_buckets rest rng1
         in (chosen @ selected, rng', msgs)))"

definition sample_for_folder ::
  "('r, FileInfo) pyrandom \<Rightarrow> string \<Rightarrow> series \<Rightarrow> (string \<times> FileInfo list) list \<Rightarrow> 'r
    \<Rightarrow> py_error + (FileInfo list \<times> 'r \<times> event list)" where
  "sample_for_folder rnd fld folder_row folder_buckets rng =
     (case requested_loop folder_row (map fst BUCKET_DEFS) [] of
        Inl e \<Rightarrow> Inl e
      | Inr requested \<Rightarrow> Inr (sample_loop rnd fld folder_buckets requested rng))"

subsection \<open>Sampling driver\<close>

text \<open>
  The optional target of a row:
  \<^verbatim>\<open>int(row["Target Samples"]) if "Target Samples" in row and not pd.isna(...) else None\<close>.
\<close>

definition target_of :: "series \<Rightarrow> py_error + int option" where
  "target_of row =
     (if in_index ''Target Samples'' row \<and> \<not> isna (cell_at row ''Target Samples'')
      then (case py_int (cell_at row ''Target Samples'') of Inl e \<Rightarrow> Inl e | Inr t \<Rightarrow> Inr (Some t))
      else Inr None)"

text \<open>
  The loop of \<^verbatim>\<open>run_sampling\<close> over the rows of the plan. One generator state is
  threaded through all rows; an exception ends the loop.
\<close>

fun sampling_rows ::
  "host \<Rightarrow> ('r, FileInfo) pyrandom \<Rightarrow> (string \<times> (string \<times> FileInfo list) list) list
    \<Rightarrow> series list \<Rightarrow> 'r \<Rightarrow> py_error + (FileInfo list \<times> 'r \<times> event list)" where
  "sampling_rows h rnd folder_bucket_map [] rng = Inr ([], rng, [])"
| "sampling_rows h rnd folder_bucket_map (row # rest) rng =
     (case getitem row ''Folder'' of
        Inl e \<Rightarrow> Inl e
      | Inr c \<Rightarrow>
     (case target_of row of
        Inl e \<Rightarrow> Inl e
      | Inr target \<Rightarrow>
     (let folder_key = py_str h c;
          folder_buckets = dict_get folder_bucket_map folder_key []
      in if folder_buckets = [] then
           (case sampling_rows h rnd folder_bucket_map rest rng of
              Inl e \<Rightarrow> Inl e
            | Inr (all_selected, rng', msgs) \<Rightarrow>
                Inr (all_selected, rng', WarnNoBucketed folder_key # msgs))
         else
           (case sample_for_folder rnd folder_key row folder_buckets rng of
              Inl e \<Rightarrow> Inl e
            | Inr (selected, rng1, msgs1) \<Rightarrow>
                (let short =
                       (case target of
                          None \<Rightarrow> []
                        | Some t \<Rightarrow>
                            (if int (length selected) < t
                             then [WarnTargetShort folder_key t (length selected)] else []))
                 in case sampling_rows h rnd folder_bucket_map rest rng1 of
                      Inl e \<Rightarrow> Inl e
                    | Inr (all_selected, rng', msgs) \<Rightarrow>
                        Inr (selected @ all_selected, rng', msgs1 @ short @ msgs))))))"

text \<open>
  Deduplication: \<^verbatim>\<open>unique_selected[key] = fi\<close> keeps the place of the first record
  with a key and the value of the last one.
\<close>

fun unique_loop :: "((string \<times> string) \<times> FileInfo) list \<Rightarrow> FileInfo list \<Rightarrow> ((string \<times> string) \<times> FileInfo) list" where
  "unique_loop unique_selected [] = unique_selected"
| "unique_loop unique_selected (fi # rest) =
     unique_loop (AList.update (folder fi, path fi) fi unique_selected) rest"

definition final_list_of :: "FileInfo list \<Rightarrow> FileInfo list" where
  "final_list_of all_selected = map snd (unique_loop [] all_selected)"

text \<open>A line of the manifest, in the column order of \<^verbatim>\<open>fieldnames\<close>.\<close>

record manifest_row =
  m_folder :: string
  m_rel_path :: string
  m_full_path :: string
  m_duration_sec :: pyfloat
  m_bucket :: "string option"

definition manifest_of :: "host \<Rightarrow> FileInfo \<Rightarrow> manifest_row" where
  "manifest_of h fi =
     \<lparr>m_folder = folder fi, m_rel_path = rel_path fi, m_full_path = path fi,
      m_duration_sec = round3 h (duration fi), m_bucket = bucket fi\<rparr>"

text \<open>
  \<^verbatim>\<open>run_sampling\<close>: the rows written to the output file and the messages printed, or
  the exception raised. The generator is built from the seed before the plan is loaded.
\<close>

definition run_sampling ::
  "host \<Rightarrow> ('r, FileInfo) pyrandom \<Rightarrow> string \<Rightarrow> string \<Rightarrow> string \<Rightarrow> int
    \<Rightarrow> py_error + (manifest_row list \<times> event list)" where
  "run_sampling h rnd plan_csv audio_root output_csv seed =
     (let rng = Random rnd seed in
      case load_sampling_plan h plan_csv of
        Inl e \<Rightarrow> Inl e
      | Inr plan_df \<Rightarrow>
     (case build_file_index h audio_root plan_df of
        Inl e \<Rightarrow> Inl e
      | Inr (files, msgs1) \<Rightarrow>
     (case sampling_rows h rnd (build_folder_bucket_map files) (iterrows plan_df) rng of
        Inl e \<Rightarrow> Inl e
      | Inr (all_selected, rng', msgs2) \<Rightarrow>
          (let final_list = final_list_of all_selected
           in Inr (map (manifest_of h) final_list,
                   [InfoLoadedPlan (length (rows plan_df)) plan_csv] @ msgs1 @ msgs2
                   @ [InfoFinal (length final_list), InfoWrote output_csv])))))"

section \<open>audio\_distribution.py\<close>








section \<open>copy\_samples.py\<close>

text \<open>
  The copy utility changes the file system. Its state is a type parameter, and the three
  library calls the script makes on it are parameters: \<^verbatim>\<open>os.path.isfile\<close>,
  \<^verbatim>\<open>os.makedirs(path, exist_ok=True)\<close> and \<^verbatim>\<open>shutil.copy2\<close>; the last two return
  the new state or the exception they raise.
\<close>

record 'fs fsops =
  isfile :: "'fs \<Rightarrow> string \<Rightarrow> bool"
  makedirs :: "'fs \<Rightarrow> string \<Rightarrow> py_error + 'fs"
  copy2 :: "'fs \<Rightarrow> string \<Rightarrow> string \<Rightarrow> py_error + 'fs"

datatype copy_event =
    WarnSourceNotFound string
  | InfoCopied string string
  | WarnJsonNotFound string
  | ExpectedJson string
  | InfoLoadedRows nat string
  | InfoDone
  | InfoCopiedAudio nat
  | InfoCopiedJson nat

definition ensure_dir :: "'fs fsops \<Rightarrow> 'fs \<Rightarrow> string \<Rightarrow> py_error + 'fs" where
  "ensure_dir ops fs p = makedirs ops fs p"

text \<open>\<^verbatim>\<open>copy_file\<close>: whether the file was copied, the new state and the message.\<close>

definition copy_file ::
  "host \<Rightarrow> 'fs fsops \<Rightarrow> 'fs \<Rightarrow> string \<Rightarrow> string \<Rightarrow> py_error + (bool \<times> 'fs \<times> copy_event list)" where
  "copy_file h ops fs src dst =
     (if \<not> isfile ops fs src then Inr (False, fs, [WarnSourceNotFound src])
      else
        (case ensure_dir ops fs (dirname h dst) of
           Inl e \<Rightarrow> Inl e
         | Inr fs1 \<Rightarrow>
             (case copy2 ops fs1 src dst of
                Inl e \<Rightarrow> Inl e
              | Inr fs2 \<Rightarrow> Inr (True, fs2, [InfoCopied src dst]))))"

text \<open>\<^verbatim>\<open>s.replace(old, new)\<close> for one-character \<open>old\<close> and \<open>new\<close>.\<close>

definition replace_char :: "char \<Rightarrow> char \<Rightarrow> string \<Rightarrow> string" where
  "replace_char old new s = map (\<lambda>c. if c = old then new else c) s"

text \<open>
  The body of the loop of \<^verbatim>\<open>main\<close> for one row of the manifest. The state is the
  file system with the two counters \<^verbatim>\<open>copied_audio\<close> and \<^verbatim>\<open>copied_json\<close>.
\<close>

definition copy_row ::
  "host \<Rightarrow> 'fs fsops \<Rightarrow> string \<Rightarrow> series \<Rightarrow> 'fs \<times> nat \<times> nat
    \<Rightarrow> py_error + (('fs \<times> nat \<times> nat) \<times> copy_event list)" where
  "copy_row h ops dest_root row st =
     (case st of (fs, copied_audio, copied_json) \<Rightarrow>
      case getitem row ''full_path'' of
        Inl e \<Rightarrow> Inl e
      | Inr full \<Rightarrow>
     (case getitem row ''rel_path'' of
        Inl e \<Rightarrow> Inl e
      | Inr rel \<Rightarrow>
     (let src_audio = normpath h (py_str h full);
          rel_norm = replace_char (CHR 0x5C) (sep h) (replace_char CHR ''/'' (sep h) (py_str h rel));
          dest_audio = normpath h (path_join h dest_root rel_norm)
      in case copy_file h ops fs src_audio dest_audio of
           Inl e \<Rightarrow> Inl e
         | Inr (ok, fs1, msgs1) \<Rightarrow>
             (let copied_audio' = (if ok then copied_audio + 1 else copied_audio);
                  src_json = fst (splitext h src_audio) @ ''.json'';
                  dest_json = fst (splitext h dest_audio) @ ''.json''
              in if isfile ops fs1 src_json then
                   (case copy_file h ops fs1 src_json dest_json of
                      Inl e \<Rightarrow> Inl e
                    | Inr (okj, fs2, msgs2) \<Rightarrow>
                        Inr ((fs2, copied_audio', (if okj then copied_json + 1 else copied_json)),
                             msgs1 @ msgs2))
                 else
                   Inr ((fs1, copied_audio', copied_json),
                        msgs1 @ [WarnJsonNotFound src_audio, ExpectedJson src_json])))))"

fun copy_rows ::
  "host \<Rightarrow> 'fs fsops \<Rightarrow> string \<Rightarrow> series list \<Rightarrow> 'fs \<times> nat \<times> nat
    \<Rightarrow> py_error + (('fs \<times> nat \<times> nat) \<times> copy_event list)" where
  "copy_rows h ops dest_root [] st = Inr (st, [])"
| "copy_rows h ops dest_root (row # rest) st =
     (case copy_row h ops dest_root row st of
        Inl e \<Rightarrow> Inl e
      | Inr (st1, msgs1) \<Rightarrow>
          (case copy_rows h ops dest_root rest st1 of
             Inl e \<Rightarrow> Inl e
           | Inr (st2, msgs2) \<Rightarrow> Inr (st2, msgs1 @ msgs2)))"

text \<open>
  \<^verbatim>\<open>main\<close> of the copy utility, from the parsed arguments \<^verbatim>\<open>--csv\<close>, \<^verbatim>\<open>--dest\<close>
  and \<^verbatim>\<open>--sep\<close> and the file system at the start.
\<close>

definition copy_samples_main ::
  "host \<Rightarrow> 'fs fsops \<Rightarrow> 'fs \<Rightarrow> string \<Rightarrow> string \<Rightarrow> string
    \<Rightarrow> py_error + (('fs \<times> nat \<times> nat) \<times> copy_event list)" where
  "copy_samples_main h ops fs csv_path dest_root sep_arg =
     (let sp = (if sep_arg = [CHR 0x5C, CHR ''t''] then [CHR 0x09] else sep_arg) in
      case read_csv h csv_path sp of
        Inl e \<Rightarrow> Inl e
      | Inr df \<Rightarrow>
          (if \<not> {''rel_path'', ''full_path''} \<subseteq> set (columns df) then Inl ValueError
           else
             (case copy_rows h ops dest_root (iterrows df) (fs, 0, 0) of
                Inl e \<Rightarrow> Inl e
              | Inr ((fs', copied_audio, copied_json), msgs) \<Rightarrow>
                  Inr ((fs', copied_audio, copied_json),
                       [InfoLoadedRows (length (rows df)) csv_path] @ msgs
                       @ [InfoDone, InfoCopiedAudio copied_audio, InfoCopiedJson copied_json]))))"

section \<open>The order of the random draws, as the specification states it\<close>

text \<open>
  The specification says that the generator is consumed in a fixed traversal order:
  folders in plan order, buckets in the fixed order of the labels. The definitions of
  this section write that order down without the generator and without the loops of the
  script, to compare the script with it. A step of the traversal either takes all
  available files of a bucket or draws a sample of a given size from them.
\<close>

datatype step = TakeAll "FileInfo list" | Draw "FileInfo list" nat

text \<open>The positive count that a row requests for a label, if it requests one.\<close>

definition request_of :: "series \<Rightarrow> string \<Rightarrow> int option" where
  "request_of row b =
     (if in_index (''Samples '' @ b) row then
        (case requested_count row (''Samples '' @ b) of
           Inl e \<Rightarrow> None
         | Inr n \<Rightarrow> (if 0 < n then Some n else None))
      else None)"

text \<open>
  The step of one label for a row: none without a request or without files, all files
  when they are at most the request, a draw of the requested size otherwise.
\<close>

definition bucket_steps :: "(string \<times> FileInfo list) list \<Rightarrow> series \<Rightarrow> string \<Rightarrow> step list" where
  "bucket_steps folder_buckets row b =
     (case request_of row b of
        None \<Rightarrow> []
      | Some n \<Rightarrow>
          (if dict_get folder_buckets b [] = [] then []
           else if int (length (dict_get folder_buckets b [])) \<le> n
           then [TakeAll (dict_get folder_buckets b [])]
           else [Draw (dict_get folder_buckets b []) (nat n)]))"

text \<open>The steps of a row: the labels in their fixed order; none for a folder without files.\<close>

definition row_steps ::
  "host \<Rightarrow> (string \<times> (string \<times> FileInfo list) list) list \<Rightarrow> series \<Rightarrow> step list" where
  "row_steps h folder_bucket_map row =
     concat (map (bucket_steps (dict_get folder_bucket_map (py_str h (cell_at row ''Folder'')) []) row)
                 (map fst BUCKET_DEFS))"

text \<open>The steps of a plan: the rows in plan order.\<close>

definition traversal ::
  "host \<Rightarrow> (string \<times> (string \<times> FileInfo list) list) list \<Rightarrow> series list \<Rightarrow> step list" where
  "traversal h folder_bucket_map plan_rows = concat (map (row_steps h folder_bucket_map) plan_rows)"

text \<open>
  Running the steps in order on one generator: every draw starts from the state that the
  draw before it left. The result is the files selected, in order, and the last state.
\<close>

fun run_steps :: "('r, FileInfo) pyrandom \<Rightarrow> step list \<Rightarrow> 'r \<Rightarrow> FileInfo list \<times> 'r" where
  "run_steps rnd [] rng = ([], rng)"
| "run_steps rnd (TakeAll files # steps) rng =
     (case run_steps rnd steps rng of (selected, rng') \<Rightarrow> (files @ selected, rng'))"
| "run_steps rnd (Draw files k # steps) rng =
     (case sample rnd rng files k of
        (chosen, rng1) \<Rightarrow>
          (case run_steps rnd steps rng1 of (selected, rng') \<Rightarrow> (chosen @ selected, rng')))"

section \<open>A small host for the examples\<close>

text \<open>
  A concrete host on which the functions above can be run: the audio root \<open>/data\<close>
  holds one folder \<open>podcastA\<close> with three clips of 0.5, 0.8 and 7 seconds and a text
  file; the plan names \<open>podcastA\<close> twice and a folder \<open>ghost\<close> that does not exist, and
  uses the legacy column name \<open>group\<close>. A second plan file holds the same plan without
  the row of \<open>ghost\<close>, a third one a single row for \<open>ghost\<close> whose target is text.
\<close>

definition example_row :: "cell list" where
  "example_row = [StrCell ''podcastA'', FloatCell (Fin 3), IntCell 1, FloatCell (Fin 1)]"

definition example_ghost_row :: "cell list" where
  "example_ghost_row = [StrCell ''ghost'', FloatCell NaN, IntCell 2, FloatCell NaN]"

definition example_columns :: "string list" where
  "example_columns = [''Target Samples'', ''Samples [0, 1)'', ''Samples [5, 10)'']"

definition example_plan :: dataframe where
  "example_plan =
     \<lparr>columns = ''group'' # example_columns,
      rows = [example_row, example_ghost_row, example_row]\<rparr>"

definition example_plan_without_ghost :: dataframe where
  "example_plan_without_ghost =
     \<lparr>columns = ''Folder'' # example_columns, rows = [example_row, example_row]\<rparr>"

definition example_plan_bad_target :: dataframe where
  "example_plan_bad_target =
     \<lparr>columns = [''Folder'', ''Target Samples''], rows = [[StrCell ''ghost'', StrCell ''abc'']]\<rparr>"

definition example_splitext :: "string \<Rightarrow> string \<times> string" where
  "example_splitext p =
     (let e = takeWhile (\<lambda>c. c \<noteq> CHR ''.'') (rev p)
      in if CHR ''.'' \<in> set p then (take (length p - length e - 1) p, CHR ''.'' # rev e)
         else (p, []))"

definition example_host :: host where
  "example_host =
     \<lparr>path_join = (\<lambda>a b. a @ ''/'' @ b),
      isdir = (\<lambda>p. p = ''/data/podcastA''),
      walk = (\<lambda>p. if p = ''/data/podcastA''
                   then [(''/data/podcastA'', [''a.wav'', ''b.WAV'', ''c.flac'', ''notes.txt''])]
                   else []),
      splitext = example_splitext,
      relpath = (\<lambda>p start. drop (length start + 1) p),
      normpath = (\<lambda>p. p),
      sep = CHR ''/'',
      sf_info = (\<lambda>p. if p = ''/data/podcastA/a.wav'' then Some (8000, 16000)
                       else if p = ''/data/podcastA/b.WAV'' then Some (12800, 16000)
                       else if p = ''/data/podcastA/c.flac'' then Some (112000, 16000)
                       else None),
      float_div = (\<lambda>a b. Fin (real_of_int a / real_of_int b)),
      round3 = (\<lambda>d. d),
      str_float = (\<lambda>d. ''nan''),
      read_csv = (\<lambda>p s. if p = ''plan.csv'' then Inr example_plan
                         else if p = ''plan_without_ghost.csv'' then Inr example_plan_without_ghost
                         else if p = ''plan_bad_target.csv'' then Inr example_plan_bad_target
                         else Inl OSError),
      dirname = (\<lambda>p. rev (drop 1 (dropWhile (\<lambda>c. c \<noteq> CHR ''/'') (rev p))))\<rparr>"

text \<open>
  A generator for the examples: the state is a counter, and a sample of \<open>k\<close> takes the
  first \<open>k\<close> elements of the population rotated by the counter.
\<close>

definition example_sample :: "nat \<Rightarrow> 'a list \<Rightarrow> nat \<Rightarrow> 'a list \<times> nat" where
  "example_sample rng xs k =
     (take k (drop (rng mod length xs) xs @ take (rng mod length xs) xs), Suc rng)"

definition example_random :: "(nat, FileInfo) pyrandom" where
  "example_random = \<lparr>Random = (\<lambda>seed. nat \<bar>seed\<bar>), sample = example_sample\<rparr>"

text \<open>A file record of the example folder, from the file's name and its length in seconds.\<close>

definition example_file :: "string \<Rightarrow> real \<Rightarrow> FileInfo" where
  "example_file name d =
     \<lparr>folder = ''podcastA'', path = ''/data/podcastA/'' @ name, rel_path = ''podcastA/'' @ name,
      duration = Fin d, bucket = assign_bucket (Fin d)\<rparr>"



text \<open>
  The manifest and the messages of the sampler on the example host with seed 42 (see
  \<open>example_run\<close> below).
\<close>

definition example_manifest :: "manifest_row list" where
  "example_manifest =
     [\<lparr>m_folder = ''podcastA'', m_rel_path = ''podcastA/a.wav'',
        m_full_path = ''/data/podcastA/a.wav'',
        m_duration_sec = Fin (1 / 2), m_bucket = Some ''[0, 1)''\<rparr>,
      \<lparr>m_folder = ''podcastA'', m_rel_path = ''podcastA/c.flac'',
        m_full_path = ''/data/podcastA/c.flac'', m_duration_sec = Fin 7,
        m_bucket = Some ''[5, 10)''\<rparr>]"

definition example_messages :: "event list" where
  "example_messages =
     [InfoLoadedPlan 3 ''plan.csv'', InfoFolderFound ''podcastA'' 3,
      WarnFolderNotFound ''/data/ghost'', InfoFolderFound ''ghost'' 0,
      InfoFolderFound ''podcastA'' 3, InfoTotalIndexed 6,
      WarnTargetShort ''podcastA'' 3 2, WarnNoBucketed ''ghost'',
      WarnTargetShort ''podcastA'' 3 2, InfoFinal 2, InfoWrote ''out.csv'']"

section \<open>Properties\<close>

subsection \<open>The bucket classifier\<close>

lemma assign_bucket_Fin:
  "0 \<le> x \<Longrightarrow> assign_bucket (Fin x) =
     (if x < 1 then Some ''[0, 1)'' else if x < 5 then Some ''[1, 5)''
      else if x < 10 then Some ''[5, 10)'' else if x < 15 then Some ''[10, 15)''
      else if x < 20 then Some ''[15, 20)'' else if x < 25 then Some ''[20, 25)''
      else if x < 30 then Some ''[25, 30)'' else Some ''[30+)'')"
  by (simp add: assign_bucket_def BUCKET_DEFS_def)

lemma assign_bucket_PInf: "assign_bucket PInf = Some ''[30+)''"
  by (simp add: assign_bucket_def BUCKET_DEFS_def)

lemma in_bucket_range_simps:
  "in_bucket_range (n, lo, Some h) (Fin x) = (lo \<le> x \<and> x < h)"
  "in_bucket_range (n, lo, None) (Fin x) = (lo \<le> x)"
  "in_bucket_range (n, lo, Some h) PInf = False"
  "in_bucket_range (n, lo, None) PInf = True"
  by (simp_all add: in_bucket_range_def)

lemma nonneg_float_cases:
  assumes "fle (Fin 0) d"
  obtains x where "d = Fin x" and "0 \<le> x" | "d = PInf"
  using assms by (cases d) simp_all

lemma assign_bucket_in_range:
  assumes "fle (Fin 0) d"
  shows "\<exists>e \<in> set BUCKET_DEFS. in_bucket_range e d \<and> assign_bucket d = Some (fst e)"
  using assms
proof (cases d rule: nonneg_float_cases)
  case (1 x)
  then show ?thesis
    by (simp add: assign_bucket_Fin in_bucket_range_simps BUCKET_DEFS_def)
next
  case 2
  then show ?thesis
    by (simp add: assign_bucket_PInf in_bucket_range_simps BUCKET_DEFS_def)
qed

lemma in_range_assign_bucket:
  assumes "fle (Fin 0) d" and "e \<in> set BUCKET_DEFS" and "in_bucket_range e d"
  shows "assign_bucket d = Some (fst e)"
  using assms(1)
proof (cases d rule: nonneg_float_cases)
  case (1 x)
  with assms(2,3) show ?thesis
    unfolding BUCKET_DEFS_def
    by (auto simp: assign_bucket_Fin in_bucket_range_simps)
next
  case 2
  with assms(2,3) show ?thesis
    unfolding BUCKET_DEFS_def
    by (auto simp: assign_bucket_PInf in_bucket_range_simps)
qed

lemma BUCKET_DEFS_names: "distinct (map fst BUCKET_DEFS)" "length BUCKET_DEFS = 8"
  by (simp_all add: BUCKET_DEFS_def)

lemma BUCKET_DEFS_entry_unique:
  "e \<in> set BUCKET_DEFS \<Longrightarrow> e' \<in> set BUCKET_DEFS \<Longrightarrow> fst e = fst e' \<Longrightarrow> e = e'"
  using BUCKET_DEFS_names(1) by (metis eq_key_imp_eq_value prod.collapse)

subsection \<open>The two classifiers\<close>

declare str_nat.simps [simp del]



subsection \<open>The request map of a row\<close>

lemma requested_loop_ok:
  assumes "\<forall>b \<in> set bs. in_index (''Samples '' @ b) row \<longrightarrow> \<not> isl (requested_count row (''Samples '' @ b))"
  shows "\<exists>r. requested_loop row bs req = Inr r
      \<and> (\<forall>b. map_of r b =
            (if b \<in> set bs \<and> in_index (''Samples '' @ b) row
                 \<and> 0 < projr (requested_count row (''Samples '' @ b))
             then Some (projr (requested_count row (''Samples '' @ b))) else map_of req b))"
  using assms
proof (induction bs arbitrary: req)
  case Nil
  then show ?case by simp
next
  case (Cons b bs)
  let ?col = "''Samples '' @ b"
  from Cons.prems have rest: "\<forall>b \<in> set bs. in_index (''Samples '' @ b) row \<longrightarrow> \<not> isl (requested_count row (''Samples '' @ b))"
    by simp
  show ?case
  proof (cases "in_index ?col row")
    case False
    with Cons.IH [OF rest, of req] show ?thesis by auto
  next
    case True
    with Cons.prems obtain n where n: "requested_count row ?col = Inr n"
      by (cases "requested_count row ?col") auto
    show ?thesis
    proof (cases "0 < n")
      case False
      with True n Cons.IH [OF rest, of req] show ?thesis by auto
    next
      case pos: True
      from Cons.IH [OF rest, of "AList.update b n req"]
      obtain r where r: "requested_loop row bs (AList.update b n req) = Inr r"
        and m: "\<forall>b'. map_of r b' =
            (if b' \<in> set bs \<and> in_index (''Samples '' @ b') row
                 \<and> 0 < projr (requested_count row (''Samples '' @ b'))
             then Some (projr (requested_count row (''Samples '' @ b'))) else map_of (AList.update b n req) b')"
        by blast
      have "requested_loop row (b # bs) req = Inr r"
        using True n pos r by simp
      moreover have "\<forall>b'. map_of r b' =
            (if b' \<in> set (b # bs) \<and> in_index (''Samples '' @ b') row
                 \<and> 0 < projr (requested_count row (''Samples '' @ b'))
             then Some (projr (requested_count row (''Samples '' @ b'))) else map_of req b')"
        using m True n pos by (auto simp: update_conv')
      ultimately show ?thesis by blast
    qed
  qed
qed

lemma requested_loop_error:
  assumes "b \<in> set bs" "in_index (''Samples '' @ b) row" "requested_count row (''Samples '' @ b) = Inl e"
  shows "isl (requested_loop row bs req)"
  using assms
proof (induction bs arbitrary: req)
  case Nil
  then show ?case by simp
next
  case (Cons a bs)
  then show ?case
    by (cases "requested_count row (''Samples '' @ a)") (auto simp: Let_def)
qed

subsection \<open>The sampling loop of one folder\<close>

lemma sample_loop_append:
  "sample_loop rnd fld fb (xs @ ys) rng =
     (case sample_loop rnd fld fb xs rng of
        (s1, r1, m1) \<Rightarrow>
          (case sample_loop rnd fld fb ys r1 of
             (s2, r2, m2) \<Rightarrow> (s1 @ s2, r2, m1 @ m2)))"
proof (induction xs arbitrary: rng)
  case Nil
  show ?case by (simp split: prod.splits)
next
  case (Cons x xs)
  obtain b n where x: "x = (b, n)" by (cases x)
  show ?case
    unfolding x by (simp add: Cons.IH Let_def split: prod.splits)
qed

lemma sample_loop_take_all:
  assumes "int (length (dict_get fb b [])) \<le> n"
  shows "sample_loop rnd fld fb ((b, n) # post) rng =
     (case sample_loop rnd fld fb post rng of
        (s2, r2, m2) \<Rightarrow>
          (dict_get fb b [] @ s2, r2,
           (if dict_get fb b [] = [] then WarnNoFiles fld b n
            else InfoTakingAll fld b n (length (dict_get fb b []))) # m2))"
  using assms by (simp add: Let_def split: prod.splits)

lemma sample_loop_random:
  assumes "n < int (length (dict_get fb b []))" "0 < n"
  shows "sample_loop rnd fld fb ((b, n) # post) rng =
     (case sample rnd rng (dict_get fb b []) (nat n) of
        (chosen, r1) \<Rightarrow>
          (case sample_loop rnd fld fb post r1 of
             (s2, r2, m2) \<Rightarrow> (chosen @ s2, r2, m2)))"
proof -
  from assms have "dict_get fb b [] \<noteq> []" by auto
  with assms show ?thesis by (simp add: Let_def split: prod.splits)
qed

lemma distinct_of_submset:
  assumes "mset ys \<subseteq># mset xs" and "distinct xs"
  shows "distinct ys"
proof -
  have le1: "count (mset ys) a \<le> 1" for a
  proof -
    have "count (mset ys) a \<le> count (mset xs) a"
      using assms(1) by (rule mset_subset_eq_count)
    also have "\<dots> \<le> 1"
      using assms(2) by (simp add: distinct_count_atmost_1)
    finally show ?thesis .
  qed
  show ?thesis
    unfolding distinct_count_atmost_1
  proof (intro allI)
    fix a
    show "count (mset ys) a = (if a \<in> set ys then 1 else 0)"
    proof (cases "a \<in> set ys")
      case True
      then have "count (mset ys) a \<noteq> 0" by (simp add: count_eq_zero_iff)
      with le1 [of a] have "count (mset ys) a = 1" by arith
      with True show ?thesis by simp
    next
      case False
      then show ?thesis by (simp add: count_eq_zero_iff)
    qed
  qed
qed

lemma sample_contract_props:
  assumes "sample_contract smp" "k \<le> length xs"
  shows "length (fst (smp rng xs k)) = k"
    and "mset (fst (smp rng xs k)) \<subseteq># mset xs"
    and "set (fst (smp rng xs k)) \<subseteq> set xs"
    and "distinct xs \<Longrightarrow> distinct (fst (smp rng xs k))"
proof -
  from assms show l: "length (fst (smp rng xs k)) = k"
    and m: "mset (fst (smp rng xs k)) \<subseteq># mset xs"
    by (simp_all add: sample_contract_def)
  from m show "set (fst (smp rng xs k)) \<subseteq> set xs"
    by (metis set_mset_mono set_mset_mset)
  assume "distinct xs"
  with m show "distinct (fst (smp rng xs k))"
    by (rule distinct_of_submset)
qed

lemma example_sample_contract: "sample_contract (example_sample :: nat \<Rightarrow> 'a list \<Rightarrow> nat \<Rightarrow> 'a list \<times> nat)"
proof -
  have "mset (take k (drop j xs @ take j xs)) \<subseteq># mset xs" for k j and xs :: "'a list"
  proof -
    have "mset (take k (drop j xs @ take j xs)) \<subseteq># mset (drop j xs @ take j xs)"
      by (metis append_take_drop_id mset_subset_eq_add_left mset_append)
    also have "mset (drop j xs @ take j xs) = mset xs"
      by (metis append_take_drop_id mset_append union_commute)
    finally show ?thesis .
  qed
  moreover have "length (take k (drop j xs @ take j xs)) = k" if "k \<le> length xs" for k j and xs :: "'a list"
    using that by simp
  ultimately show ?thesis
    unfolding sample_contract_def example_sample_def fst_conv by blast
qed

lemma example_read: "read_csv example_host ''plan.csv'' '','' = Inr example_plan"
  by (simp add: example_host_def)

subsection \<open>Requests, take-all and random draws\<close>

lemma requested_count_isl:
  "isl (requested_count row col) \<longleftrightarrow> \<not> isna (cell_at row col) \<and> isl (py_int (cell_at row col))"
  by (simp add: requested_count_def)

lemma requested_count_Inr:
  "requested_count row col = Inr n \<and> 0 < n
     \<longleftrightarrow> \<not> isna (cell_at row col) \<and> py_int (cell_at row col) = Inr n \<and> 0 < n"
  by (auto simp: requested_count_def)

lemma set_update_subset: "set (AList.update k v al) \<subseteq> insert (k, v) (set al)"
  by (induction al) auto

lemma requested_loop_positive:
  assumes "requested_loop row bs req = Inr r" and "\<forall>(b, n) \<in> set req. 0 < n"
  shows "\<forall>(b, n) \<in> set r. 0 < n"
  using assms
proof (induction bs arbitrary: req)
  case Nil
  then show ?case by simp
next
  case (Cons a bs)
  show ?case
  proof (cases "in_index (''Samples '' @ a) row")
    case False
    with Cons.prems Cons.IH [of req] show ?thesis by simp
  next
    case True
    show ?thesis
    proof (cases "requested_count row (''Samples '' @ a)")
      case (Inl e)
      with True Cons.prems show ?thesis by simp
    next
      case (Inr n)
      show ?thesis
      proof (cases "0 < n")
        case False
        with True Inr Cons.prems Cons.IH [of req] show ?thesis by simp
      next
        case pos: True
        have "\<forall>(b, m) \<in> set (AList.update a n req). 0 < m"
          using set_update_subset [of a n req] Cons.prems(2) pos by auto
        moreover have "requested_loop row bs (AList.update a n req) = Inr r"
          using True Inr pos Cons.prems(1) by simp
        ultimately show ?thesis by (rule Cons.IH [rotated])
      qed
    qed
  qed
qed

lemma sample_for_folder_split:
  assumes "requested_loop row (map fst BUCKET_DEFS) [] = Inr (pre @ (b, n) # post)"
  shows "sample_for_folder rnd fld row fb rng =
     (case sample_loop rnd fld fb pre rng of
        (s1, r1, m1) \<Rightarrow>
          (case sample_loop rnd fld fb ((b, n) # post) r1 of
             (s2, r2, m2) \<Rightarrow> Inr (s1 @ s2, r2, m1 @ m2)))"
  using assms by (simp add: sample_for_folder_def sample_loop_append split: prod.splits)

lemma example_request:
  "requested_loop ([''Folder'', ''Samples [0, 1)'', ''Samples [5, 10)''],
                   [StrCell ''podcastA'', IntCell 2, FloatCell NaN]) (map fst BUCKET_DEFS) []
     = Inr ([] @ (''[0, 1)'', 2) # [])"
  by (simp add: BUCKET_DEFS_def in_index_def requested_count_def cell_at_def)

subsection \<open>Deduplication\<close>

lemma unique_loop_distinct:
  "distinct (map fst u) \<Longrightarrow> distinct (map fst (unique_loop u xs))"
  by (induction xs arbitrary: u) (simp_all add: distinct_update)

lemma unique_loop_keyed:
  assumes "\<forall>(k, fi) \<in> set u. k = (folder fi, path fi)"
  shows "\<forall>(k, fi) \<in> set (unique_loop u xs). k = (folder fi, path fi)"
  using assms
proof (induction xs arbitrary: u)
  case Nil
  then show ?case by simp
next
  case (Cons x xs)
  have "\<forall>(k, fi) \<in> set (AList.update (folder x, path x) x u). k = (folder fi, path fi)"
    using set_update_subset [of "(folder x, path x)" x u] Cons.prems by auto
  then show ?case using Cons.IH by simp
qed

lemma find_app:
  "find P (xs @ ys) = (case find P xs of None \<Rightarrow> find P ys | Some x \<Rightarrow> Some x)"
  by (induction xs) simp_all

lemma unique_loop_map_of:
  "map_of (unique_loop u xs) k =
     (case find (\<lambda>fi. (folder fi, path fi) = k) (rev xs) of
        None \<Rightarrow> map_of u k
      | Some fi \<Rightarrow> Some fi)"
proof (induction xs arbitrary: u)
  case Nil
  show ?case by simp
next
  case (Cons x xs)
  show ?case
    by (simp add: Cons.IH find_app update_conv' split: option.splits)
qed

lemma final_list_keys:
  "map (\<lambda>fi. (folder fi, path fi)) (final_list_of xs) = map fst (unique_loop [] xs)"
proof -
  have "\<forall>(k, fi) \<in> set (unique_loop [] xs). k = (folder fi, path fi)"
    by (rule unique_loop_keyed) simp
  then show ?thesis
    by (auto simp: final_list_of_def)
qed

lemma final_list_distinct:
  "distinct (map (\<lambda>fi. (folder fi, path fi)) (final_list_of xs))"
  unfolding final_list_keys by (rule unique_loop_distinct) simp

lemma final_list_member:
  "fi \<in> set (final_list_of xs) \<longleftrightarrow>
     find (\<lambda>g. (folder g, path g) = (folder fi, path fi)) (rev xs) = Some fi"
proof -
  let ?al = "unique_loop [] xs"
  have d: "distinct (map fst ?al)" by (rule unique_loop_distinct) simp
  have k: "\<forall>(k, fi) \<in> set ?al. k = (folder fi, path fi)"
    by (rule unique_loop_keyed) simp
  have "fi \<in> set (final_list_of xs) \<longleftrightarrow> ((folder fi, path fi), fi) \<in> set ?al"
    using k by (force simp: final_list_of_def)
  also have "\<dots> \<longleftrightarrow> map_of ?al (folder fi, path fi) = Some fi"
    using d by simp
  also have "\<dots> \<longleftrightarrow> find (\<lambda>g. (folder g, path g) = (folder fi, path fi)) (rev xs) = Some fi"
    by (simp add: unique_loop_map_of split: option.splits)
  finally show ?thesis .
qed

lemma final_list_key_set:
  "(\<lambda>fi. (folder fi, path fi)) ` set (final_list_of xs) = (\<lambda>fi. (folder fi, path fi)) ` set xs"
proof -
  have "set (map (\<lambda>fi. (folder fi, path fi)) (final_list_of xs)) = fst ` set (unique_loop [] xs)"
    unfolding final_list_keys by simp
  moreover have "fst ` set (unique_loop u xs) = fst ` set u \<union> (\<lambda>fi. (folder fi, path fi)) ` set xs" for u
    by (induction xs arbitrary: u) (auto simp: dom_update)
  ultimately show ?thesis by simp
qed

lemma manifest_keys:
  "map (\<lambda>r. (m_folder r, m_full_path r)) (map (manifest_of h) fl) = map (\<lambda>fi. (folder fi, path fi)) fl"
  by (simp add: manifest_of_def)

lemma run_sampling_Inr:
  assumes "run_sampling h rnd plan_csv audio_root output_csv seed = Inr (manifest, msgs)"
  obtains plan_df files msgs1 all_selected rng' msgs2 where
    "load_sampling_plan h plan_csv = Inr plan_df"
    "build_file_index h audio_root plan_df = Inr (files, msgs1)"
    "sampling_rows h rnd (build_folder_bucket_map files) (iterrows plan_df) (Random rnd seed)
       = Inr (all_selected, rng', msgs2)"
    "manifest = map (manifest_of h) (final_list_of all_selected)"
    "msgs = [InfoLoadedPlan (length (rows plan_df)) plan_csv] @ msgs1 @ msgs2
                   @ [InfoFinal (length (final_list_of all_selected)), InfoWrote output_csv]"
  using assms
  by (auto simp: run_sampling_def Let_def split: sum.splits prod.splits)

subsection \<open>The copy loop\<close>


subsection \<open>The example run\<close>

text \<open>
  The sampler on the example host with seed 42: the plan names \<open>podcastA\<close> twice, so
  every file is indexed twice and selected twice, and the manifest holds it once.
\<close>

lemma example_run:
  "run_sampling example_host example_random ''plan.csv'' ''/data'' ''out.csv'' 42 =
     Inr (example_manifest, example_messages)"
  by code_simp

subsection \<open>Order of the rows and of the buckets\<close>

lemma sampling_rows_append:
  "sampling_rows h rnd fbm (xs @ ys) rng =
     (case sampling_rows h rnd fbm xs rng of
        Inl e \<Rightarrow> Inl e
      | Inr (s1, r1, m1) \<Rightarrow>
          (case sampling_rows h rnd fbm ys r1 of
             Inl e \<Rightarrow> Inl e
           | Inr (s2, r2, m2) \<Rightarrow> Inr (s1 @ s2, r2, m1 @ m2)))"
proof (induction xs arbitrary: rng)
  case Nil
  show ?case by (simp split: sum.splits prod.splits)
next
  case (Cons row xs)
  show ?case
    by (simp add: Cons.IH Let_def split: sum.splits prod.splits option.splits)
qed

lemma requested_loop_keys_mono:
  "requested_loop row bs req = Inr r \<Longrightarrow> fst ` set req \<subseteq> fst ` set r"
proof (induction bs arbitrary: req)
  case Nil
  then show ?case by simp
next
  case (Cons a bs)
  show ?case
  proof (cases "in_index (''Samples '' @ a) row")
    case False
    with Cons show ?thesis by simp
  next
    case True
    show ?thesis
    proof (cases "requested_count row (''Samples '' @ a)")
      case (Inl e)
      with True Cons.prems show ?thesis by simp
    next
      case (Inr n)
      show ?thesis
      proof (cases "0 < n")
        case False
        with True Inr Cons show ?thesis by simp
      next
        case pos: True
        then have "requested_loop row bs (AList.update a n req) = Inr r"
          using True Inr Cons.prems by simp
        from Cons.IH [OF this] show ?thesis by (auto simp: dom_update)
      qed
    qed
  qed
qed

lemma requested_loop_keys_upper:
  "requested_loop row bs req = Inr r \<Longrightarrow> fst ` set r \<subseteq> fst ` set req \<union> set bs"
proof (induction bs arbitrary: req)
  case Nil
  then show ?case by simp
next
  case (Cons a bs)
  show ?case
  proof (cases "in_index (''Samples '' @ a) row")
    case False
    with Cons.prems have "requested_loop row bs req = Inr r" by simp
    from Cons.IH [OF this] show ?thesis by auto
  next
    case True
    show ?thesis
    proof (cases "requested_count row (''Samples '' @ a)")
      case (Inl e)
      with True Cons.prems show ?thesis by simp
    next
      case (Inr n)
      show ?thesis
      proof (cases "0 < n")
        case False
        with True Inr Cons.prems have "requested_loop row bs req = Inr r" by simp
        from Cons.IH [OF this] show ?thesis by auto
      next
        case pos: True
        then have "requested_loop row bs (AList.update a n req) = Inr r"
          using True Inr Cons.prems by simp
        from Cons.IH [OF this] show ?thesis by (auto simp: dom_update)
      qed
    qed
  qed
qed

lemma requested_loop_order:
  assumes "requested_loop row bs req = Inr r" and "distinct bs"
      and "set bs \<inter> fst ` set req = {}"
  shows "map fst r = map fst req @ filter (\<lambda>b. b \<in> fst ` set r) bs"
  using assms
proof (induction bs arbitrary: req)
  case Nil
  then show ?case by simp
next
  case (Cons a bs)
  from Cons.prems have a: "a \<notin> set bs" "a \<notin> fst ` set req" "distinct bs"
    "set bs \<inter> fst ` set req = {}"
    by auto
  have skip: "map fst r = map fst req @ filter (\<lambda>b. b \<in> fst ` set r) (a # bs)"
    if "requested_loop row bs req = Inr r"
  proof -
    from requested_loop_keys_upper [OF that] a have "a \<notin> fst ` set r" by auto
    with Cons.IH [OF that a(3,4)] show ?thesis by simp
  qed
  show ?case
  proof (cases "in_index (''Samples '' @ a) row")
    case False
    with Cons.prems(1) show ?thesis by (simp add: skip)
  next
    case True
    show ?thesis
    proof (cases "requested_count row (''Samples '' @ a)")
      case (Inl e)
      with True Cons.prems show ?thesis by simp
    next
      case (Inr n)
      show ?thesis
      proof (cases "0 < n")
        case False
        with True Inr Cons.prems(1) show ?thesis by (simp add: skip)
      next
        case pos: True
        then have run: "requested_loop row bs (AList.update a n req) = Inr r"
          using True Inr Cons.prems by simp
        have disj: "set bs \<inter> fst ` set (AList.update a n req) = {}"
          using a by (auto simp: dom_update)
        have keys: "map fst (AList.update a n req) = map fst req @ [a]"
          using a(2) by (simp add: update_keys)
        have "a \<in> fst ` set r"
          using requested_loop_keys_mono [OF run] by (auto simp: dom_update)
        with Cons.IH [OF run a(3) disj] keys show ?thesis by simp
      qed
    qed
  qed
qed

subsection \<open>A folder that is not on disk\<close>


















subsection \<open>The loops of the script run the traversal\<close>

lemma run_steps_append:
  "run_steps rnd (xs @ ys) rng =
     (case run_steps rnd xs rng of
        (s1, r1) \<Rightarrow> (case run_steps rnd ys r1 of (s2, r2) \<Rightarrow> (s1 @ s2, r2)))"
proof (induction xs arbitrary: rng)
  case Nil
  show ?case by (simp split: prod.splits)
next
  case (Cons x xs)
  show ?case by (cases x) (simp_all add: Cons.IH split: prod.splits)
qed

lemma update_fresh:
  "k \<notin> fst ` set al \<Longrightarrow> AList.update k v al = al @ [(k, v)]"
  by (induction al) auto

text \<open>The request map in closed form: the requested labels in the order of the labels.\<close>

lemma requested_loop_closed:
  assumes "requested_loop row bs req = Inr r" and "distinct bs"
      and "set bs \<inter> fst ` set req = {}"
  shows "r = req @ List.map_filter (\<lambda>b. map_option (Pair b) (request_of row b)) bs"
  using assms
proof (induction bs arbitrary: req)
  case Nil
  then show ?case by (simp add: List.map_filter_simps)
next
  case (Cons a bs)
  from Cons.prems have a: "a \<notin> set bs" "a \<notin> fst ` set req" "distinct bs"
    "set bs \<inter> fst ` set req = {}"
    by auto
  show ?case
  proof (cases "in_index (''Samples '' @ a) row")
    case False
    then have "request_of row a = None" by (simp add: request_of_def)
    moreover from False Cons.prems(1) have "requested_loop row bs req = Inr r" by simp
    ultimately show ?thesis
      using Cons.IH [OF _ a(3,4)] by (simp add: List.map_filter_simps)
  next
    case True
    show ?thesis
    proof (cases "requested_count row (''Samples '' @ a)")
      case (Inl e)
      with True Cons.prems show ?thesis by simp
    next
      case (Inr n)
      show ?thesis
      proof (cases "0 < n")
        case False
        with True Inr have "request_of row a = None" by (simp add: request_of_def)
        moreover from False True Inr Cons.prems(1) have "requested_loop row bs req = Inr r"
          by simp
        ultimately show ?thesis
          using Cons.IH [OF _ a(3,4)] by (simp add: List.map_filter_simps)
      next
        case pos: True
        with True Inr have rq: "request_of row a = Some n" by (simp add: request_of_def)
        have run: "requested_loop row bs (AList.update a n req) = Inr r"
          using pos True Inr Cons.prems(1) by simp
        have upd: "AList.update a n req = req @ [(a, n)]"
          using a(2) by (rule update_fresh)
        have disj: "set bs \<inter> fst ` set (AList.update a n req) = {}"
          using a by (auto simp: dom_update)
        from Cons.IH [OF run a(3) disj] show ?thesis
          by (simp add: upd rq List.map_filter_simps)
      qed
    qed
  qed
qed

lemma request_of_positive: "request_of row b = Some n \<Longrightarrow> 0 < n"
  by (auto simp: request_of_def split: if_splits sum.splits)

text \<open>The loop over the requested buckets of a row runs the steps of the row.\<close>

lemma sample_loop_steps:
  assumes "sample_loop rnd fld fb
             (List.map_filter (\<lambda>b. map_option (Pair b) (request_of row b)) bs) rng
           = (selected, rng', msgs)"
  shows "run_steps rnd (concat (map (bucket_steps fb row) bs)) rng = (selected, rng')"
  using assms
proof (induction bs arbitrary: rng selected rng' msgs)
  case Nil
  then show ?case by (simp add: List.map_filter_simps)
next
  case (Cons b bs)
  let ?rest = "List.map_filter (\<lambda>b. map_option (Pair b) (request_of row b)) bs"
  let ?av = "dict_get fb b []"
  show ?case
  proof (cases "request_of row b")
    case None
    then have hd: "bucket_steps fb row b = []" by (simp add: bucket_steps_def)
    from None Cons.prems have "sample_loop rnd fld fb ?rest rng = (selected, rng', msgs)"
      by (simp add: List.map_filter_simps)
    from Cons.IH [OF this] show ?thesis by (simp add: hd)
  next
    case (Some n)
    then have full: "List.map_filter (\<lambda>b. map_option (Pair b) (request_of row b)) (b # bs)
                      = (b, n) # ?rest"
      by (simp add: List.map_filter_simps)
    show ?thesis
    proof (cases "?av = []")
      case True
      with Some have hd: "bucket_steps fb row b = []" by (simp add: bucket_steps_def)
      from True Cons.prems obtain m where
        "sample_loop rnd fld fb ?rest rng = (selected, rng', m)"
        unfolding full by (auto simp: Let_def split: prod.splits)
      from Cons.IH [OF this] show ?thesis by (simp add: hd)
    next
      case ne: False
      show ?thesis
      proof (cases "int (length ?av) \<le> n")
        case True
        with Some ne have hd: "bucket_steps fb row b = [TakeAll ?av]"
          by (simp add: bucket_steps_def)
        from True ne Cons.prems obtain s m where
          rest: "sample_loop rnd fld fb ?rest rng = (s, rng', m)" and sel: "selected = ?av @ s"
          unfolding full by (auto simp: Let_def split: prod.splits)
        from Cons.IH [OF rest] show ?thesis by (simp add: hd sel)
      next
        case False
        with Some ne have hd: "bucket_steps fb row b = [Draw ?av (nat n)]"
          by (simp add: bucket_steps_def)
        obtain chosen rng1 where c: "sample rnd rng ?av (nat n) = (chosen, rng1)"
          by (cases "sample rnd rng ?av (nat n)") auto
        from False ne c Cons.prems obtain s m where
          rest: "sample_loop rnd fld fb ?rest rng1 = (s, rng', m)" and sel: "selected = chosen @ s"
          unfolding full by (auto simp: Let_def split: prod.splits)
        from Cons.IH [OF rest] show ?thesis by (simp add: hd sel c)
      qed
    qed
  qed
qed

lemma sample_for_folder_steps:
  assumes "sample_for_folder rnd fld row fb rng = Inr (selected, rng', msgs)"
  shows "run_steps rnd (concat (map (bucket_steps fb row) (map fst BUCKET_DEFS))) rng
           = (selected, rng')"
proof -
  from assms obtain r where r: "requested_loop row (map fst BUCKET_DEFS) [] = Inr r"
    and s: "sample_loop rnd fld fb r rng = (selected, rng', msgs)"
    by (auto simp: sample_for_folder_def split: sum.splits)
  have "r = List.map_filter (\<lambda>b. map_option (Pair b) (request_of row b)) (map fst BUCKET_DEFS)"
    using requested_loop_closed [OF r BUCKET_DEFS_names(1)] by simp
  with s have "sample_loop rnd fld fb
             (List.map_filter (\<lambda>b. map_option (Pair b) (request_of row b)) (map fst BUCKET_DEFS)) rng
           = (selected, rng', msgs)"
    by simp
  then show ?thesis by (rule sample_loop_steps)
qed

lemma bucket_steps_no_files:
  "concat (map (bucket_steps [] row) bs) = []"
  by (induction bs) (simp_all add: bucket_steps_def dict_get_def split: option.splits)

text \<open>The loop over the rows of the plan runs the steps of the plan.\<close>

lemma sampling_rows_steps:
  assumes "sampling_rows h rnd fbm rs rng = Inr (selected, rng', msgs)"
  shows "run_steps rnd (traversal h fbm rs) rng = (selected, rng')"
  using assms
proof (induction rs arbitrary: rng selected rng' msgs)
  case Nil
  then show ?case by (simp add: traversal_def)
next
  case (Cons row rs)
  from Cons.prems obtain c where c: "getitem row ''Folder'' = Inr c"
    by (cases "getitem row ''Folder''") auto
  then have cell: "cell_at row ''Folder'' = c"
    by (auto simp: getitem_def split: if_splits)
  from Cons.prems c obtain t where t: "target_of row = Inr t"
    by (cases "target_of row") auto
  let ?fb = "dict_get fbm (py_str h c) []"
  have rs: "row_steps h fbm row = concat (map (bucket_steps ?fb row) (map fst BUCKET_DEFS))"
    by (simp add: row_steps_def cell)
  show ?case
  proof (cases "?fb = []")
    case True
    with Cons.prems c t obtain msgs0 where
      rest: "sampling_rows h rnd fbm rs rng = Inr (selected, rng', msgs0)"
      by (auto simp: Let_def split: sum.splits)
    have "row_steps h fbm row = []"
      unfolding rs True by (rule bucket_steps_no_files)
    with Cons.IH [OF rest] show ?thesis by (simp add: traversal_def)
  next
    case False
    with Cons.prems c t obtain s1 r1 m1 s2 m2 where
      one: "sample_for_folder rnd (py_str h c) row ?fb rng = Inr (s1, r1, m1)"
      and rest: "sampling_rows h rnd fbm rs r1 = Inr (s2, rng', m2)"
      and sel: "selected = s1 @ s2"
      by (auto simp: Let_def split: sum.splits)
    have "run_steps rnd (row_steps h fbm row) rng = (s1, r1)"
      unfolding rs using one by (rule sample_for_folder_steps)
    moreover have "run_steps rnd (traversal h fbm rs) r1 = (s2, rng')"
      using rest by (rule Cons.IH)
    ultimately show ?thesis
      using run_steps_append [of rnd "row_steps h fbm row" "traversal h fbm rs" rng]
      by (simp add: traversal_def sel)
  qed
qed

text \<open>
  The example plan on an index of the example folder: the traversal, and what the loop
  over the rows returns from the generator state 42.
\<close>

lemma example_traversal:
  "traversal example_host
     [(''podcastA'', [(''[0, 1)'', [example_file ''a.wav'' 0.5, example_file ''b.wav'' 0.8]),
                     (''[5, 10)'', [example_file ''c.flac'' 7])])]
     [(''Folder'' # example_columns, example_row), (''Folder'' # example_columns, example_ghost_row),
      (''Folder'' # example_columns, example_row)]
   = [Draw [example_file ''a.wav'' 0.5, example_file ''b.wav'' 0.8] 1,
      TakeAll [example_file ''c.flac'' 7],
      Draw [example_file ''a.wav'' 0.5, example_file ''b.wav'' 0.8] 1,
      TakeAll [example_file ''c.flac'' 7]]"
  by code_simp

lemma example_rows_run:
  "sampling_rows example_host example_random
     [(''podcastA'', [(''[0, 1)'', [example_file ''a.wav'' 0.5, example_file ''b.wav'' 0.8]),
                     (''[5, 10)'', [example_file ''c.flac'' 7])])]
     [(''Folder'' # example_columns, example_row), (''Folder'' # example_columns, example_ghost_row),
      (''Folder'' # example_columns, example_row)] 42
   = Inr ([example_file ''a.wav'' 0.5, example_file ''c.flac'' 7,
           example_file ''b.wav'' 0.8, example_file ''c.flac'' 7], 44,
          [InfoTakingAll ''podcastA'' ''[5, 10)'' 1 1, WarnTargetShort ''podcastA'' 3 2,
           WarnNoBucketed ''ghost'',
           InfoTakingAll ''podcastA'' ''[5, 10)'' 1 1, WarnTargetShort ''podcastA'' 3 2])"
  by code_simp

section \<open>The claims\<close>

subsection \<open>C1: the bucket classifier partitions the non-negative durations\<close>

text \<open>
  Claim C1. For every duration \<open>d \<ge> 0\<close> the classifier returns a label, never None:
  exactly one entry of the table has \<open>d\<close> in its range (the eight ranges have neither
  gap nor overlap on the non-negative durations), the label returned is the label of that
  entry, and each of the boundaries 1, 5, 10, 15, 20, 25, 30 goes to the bucket that
  starts there.
\<close>

theorem assign_bucket_partition:
  assumes "fle (Fin 0) d"
  shows "(\<exists>!e. e \<in> set BUCKET_DEFS \<and> in_bucket_range e d)
       \<and> (\<forall>e \<in> set BUCKET_DEFS. in_bucket_range e d \<longleftrightarrow> assign_bucket d = Some (fst e))
       \<and> length BUCKET_DEFS = 8 \<and> distinct (map fst BUCKET_DEFS)
       \<and> assign_bucket (Fin 0) = Some ''[0, 1)''
       \<and> assign_bucket (Fin 1) = Some ''[1, 5)''
       \<and> assign_bucket (Fin 5) = Some ''[5, 10)''
       \<and> assign_bucket (Fin 10) = Some ''[10, 15)''
       \<and> assign_bucket (Fin 15) = Some ''[15, 20)''
       \<and> assign_bucket (Fin 20) = Some ''[20, 25)''
       \<and> assign_bucket (Fin 25) = Some ''[25, 30)''
       \<and> assign_bucket (Fin 30) = Some ''[30+)''"
proof -
  obtain e0 where e0: "e0 \<in> set BUCKET_DEFS" "in_bucket_range e0 d"
    "assign_bucket d = Some (fst e0)"
    using assign_bucket_in_range [OF assms] by blast
  have same: "e = e0" if "e \<in> set BUCKET_DEFS" "assign_bucket d = Some (fst e)" for e
    using that e0 BUCKET_DEFS_entry_unique by simp
  have uniq: "\<exists>!e. e \<in> set BUCKET_DEFS \<and> in_bucket_range e d"
  proof (rule ex1I [of _ e0])
    show "e0 \<in> set BUCKET_DEFS \<and> in_bucket_range e0 d" using e0 by simp
  next
    fix e assume "e \<in> set BUCKET_DEFS \<and> in_bucket_range e d"
    then show "e = e0"
      using in_range_assign_bucket [OF assms] same by blast
  qed
  have iff: "\<forall>e \<in> set BUCKET_DEFS. in_bucket_range e d \<longleftrightarrow> assign_bucket d = Some (fst e)"
    using in_range_assign_bucket [OF assms] same e0(2) by blast
  have bounds: "assign_bucket (Fin 0) = Some ''[0, 1)''" "assign_bucket (Fin 1) = Some ''[1, 5)''"
    "assign_bucket (Fin 5) = Some ''[5, 10)''" "assign_bucket (Fin 10) = Some ''[10, 15)''"
    "assign_bucket (Fin 15) = Some ''[15, 20)''" "assign_bucket (Fin 20) = Some ''[20, 25)''"
    "assign_bucket (Fin 25) = Some ''[25, 30)''" "assign_bucket (Fin 30) = Some ''[30+)''"
    by (simp_all add: assign_bucket_Fin)
  from uniq iff bounds BUCKET_DEFS_names show ?thesis by simp
qed

theorem assign_bucket_partition_witness:
  "fle (Fin 0) (Fin 7)
   \<and> (\<exists>!e. e \<in> set BUCKET_DEFS \<and> in_bucket_range e (Fin 7))
   \<and> assign_bucket (Fin 7) = Some ''[5, 10)''"
proof -
  have h: "fle (Fin 0) (Fin 7)" by simp
  have "assign_bucket (Fin 7) = Some ''[5, 10)''" by (simp add: assign_bucket_Fin)
  with h assign_bucket_partition [OF h] show ?thesis by blast
qed

subsection \<open>C2: a random draw takes exactly the requested number of available files\<close>

text \<open>
  Claim C2. Let bucket \<open>b\<close> be requested by the row with count \<open>k\<close> and let the folder
  have more than \<open>k\<close> files in that bucket. Then \<open>k\<close> is positive, and the selection of
  the folder is the selection of the buckets before \<open>b\<close>, then the list \<open>chosen\<close> that
  the generator's \<open>sample\<close> returns for the available files and \<open>k\<close>, then the selection
  of the buckets after \<open>b\<close>. With the documented contract of \<open>sample\<close>, \<open>chosen\<close> has
  exactly \<open>k\<close> elements, they are taken from the available files without replacement (a
  sub-multiset), each is an available file, and they are pairwise distinct when the
  available files are. The result is a function of the generator's state, so equal seeds
  give equal selections.
\<close>

theorem random_sample_of_bucket:
  assumes "requested_loop row (map fst BUCKET_DEFS) [] = Inr (pre @ (b, k) # post)"
      and "k < int (length (dict_get fb b []))"
      and "sample_contract (sample rnd)"
  shows "0 < k
       \<and> (case sample_loop rnd fld fb pre rng of
            (s1, r1, m1) \<Rightarrow>
              (case sample rnd r1 (dict_get fb b []) (nat k) of
                 (chosen, r1') \<Rightarrow>
                   (case sample_loop rnd fld fb post r1' of
                      (s2, r2, m2) \<Rightarrow>
                        sample_for_folder rnd fld row fb rng = Inr (s1 @ chosen @ s2, r2, m1 @ m2)
                        \<and> int (length chosen) = k
                        \<and> mset chosen \<subseteq># mset (dict_get fb b [])
                        \<and> set chosen \<subseteq> set (dict_get fb b [])
                        \<and> (distinct (dict_get fb b []) \<longrightarrow> distinct chosen))))
       \<and> (\<forall>seed1 seed2. seed1 = seed2 \<longrightarrow>
             sample_for_folder rnd fld row fb (Random rnd seed1)
               = sample_for_folder rnd fld row fb (Random rnd seed2))"
proof -
  have pos: "0 < k"
    using requested_loop_positive [OF assms(1)] by simp
  have le: "nat k \<le> length (dict_get fb b [])"
    using assms(2) by simp
  obtain s1 r1 m1 where p: "sample_loop rnd fld fb pre rng = (s1, r1, m1)"
    by (cases "sample_loop rnd fld fb pre rng") auto
  obtain chosen r1' where c: "sample rnd r1 (dict_get fb b []) (nat k) = (chosen, r1')"
    by (cases "sample rnd r1 (dict_get fb b []) (nat k)") auto
  obtain s2 r2 m2 where q: "sample_loop rnd fld fb post r1' = (s2, r2, m2)"
    by (cases "sample_loop rnd fld fb post r1'") auto
  have chosen: "chosen = fst (sample rnd r1 (dict_get fb b []) (nat k))"
    using c by simp
  have props: "length chosen = nat k" "mset chosen \<subseteq># mset (dict_get fb b [])"
    "set chosen \<subseteq> set (dict_get fb b [])"
    "distinct (dict_get fb b []) \<longrightarrow> distinct chosen"
    unfolding chosen using sample_contract_props [OF assms(3) le] by blast+
  have "sample_for_folder rnd fld row fb rng = Inr (s1 @ chosen @ s2, r2, m1 @ m2)"
    unfolding sample_for_folder_split [OF assms(1)] sample_loop_random [OF assms(2) pos]
    by (simp add: p c q)
  with props pos show ?thesis by (simp add: p c q)
qed

theorem random_sample_of_bucket_witness:
  "requested_loop ([''Folder'', ''Samples [0, 1)'', ''Samples [5, 10)''],
                   [StrCell ''podcastA'', IntCell 2, FloatCell NaN]) (map fst BUCKET_DEFS) []
     = Inr ([] @ (''[0, 1)'', 2) # [])
   \<and> 2 < int (length (dict_get [(''[0, 1)'', [example_file ''a.wav'' 0.5, example_file ''b.wav'' 0.8,
                      example_file ''d.wav'' 0.9])] ''[0, 1)'' []))
   \<and> sample_contract (sample (example_random :: (nat, FileInfo) pyrandom))
   \<and> sample_for_folder (example_random :: (nat, FileInfo) pyrandom) ''podcastA''
         ([''Folder'', ''Samples [0, 1)'', ''Samples [5, 10)''],
          [StrCell ''podcastA'', IntCell 2, FloatCell NaN])
         [(''[0, 1)'', [example_file ''a.wav'' 0.5, example_file ''b.wav'' 0.8,
                      example_file ''d.wav'' 0.9])] 7
       = Inr ([example_file ''b.wav'' 0.8, example_file ''d.wav'' 0.9], 8, [])"
proof -
  let ?fb = "[(''[0, 1)'', [example_file ''a.wav'' 0.5, example_file ''b.wav'' 0.8,
                      example_file ''d.wav'' 0.9])]"
  have lt: "2 < int (length (dict_get ?fb ''[0, 1)'' []))"
    by (simp add: dict_get_def)
  have c: "sample_contract (sample (example_random :: (nat, FileInfo) pyrandom))"
    by (simp add: example_random_def example_sample_contract)
  from random_sample_of_bucket [OF example_request lt c, of "''podcastA''" 7]
  have "sample_for_folder (example_random :: (nat, FileInfo) pyrandom) ''podcastA''
         ([''Folder'', ''Samples [0, 1)'', ''Samples [5, 10)''],
          [StrCell ''podcastA'', IntCell 2, FloatCell NaN]) ?fb 7
       = Inr ([example_file ''b.wav'' 0.8, example_file ''d.wav'' 0.9], 8, [])"
    by (simp add: dict_get_def example_random_def example_sample_def)
  with example_request lt c show ?thesis by blast
qed

subsection \<open>C3: a bucket with too few files is taken whole, without randomness\<close>

text \<open>
  Claim C3. Let bucket \<open>b\<close> be requested by the row with count \<open>n\<close> and let the folder
  have at most \<open>n\<close> files in that bucket (fewer, exactly \<open>n\<close>, or none). Then the step
  for that bucket selects all available files and returns the generator unchanged,
  whatever the generator is; within the folder the buckets after \<open>b\<close> get the generator
  state that the buckets before \<open>b\<close> left; the result is a value, not an exception; and
  the selection for the bucket is the same for any two seeds.
\<close>

theorem take_all_without_randomness:
  assumes "requested_loop row (map fst BUCKET_DEFS) [] = Inr (pre @ (b, n) # post)"
      and "int (length (dict_get fb b [])) \<le> n"
  shows "sample_loop rnd fld fb [(b, n)] rng =
           (dict_get fb b [], rng,
            [if dict_get fb b [] = [] then WarnNoFiles fld b n
             else InfoTakingAll fld b n (length (dict_get fb b []))])
       \<and> sample_for_folder rnd fld row fb rng =
           (case sample_loop rnd fld fb pre rng of
              (s1, r1, m1) \<Rightarrow>
                (case sample_loop rnd fld fb post r1 of
                   (s2, r2, m2) \<Rightarrow>
                     Inr (s1 @ dict_get fb b [] @ s2, r2,
                          m1 @ [if dict_get fb b [] = [] then WarnNoFiles fld b n
                                else InfoTakingAll fld b n (length (dict_get fb b []))] @ m2)))
       \<and> (\<forall>seed1 seed2.
             fst (sample_loop rnd fld fb [(b, n)] (Random rnd seed1))
               = fst (sample_loop rnd fld fb [(b, n)] (Random rnd seed2)))"
proof -
  have step: "sample_loop rnd fld fb [(b, n)] g =
           (dict_get fb b [], g,
            [if dict_get fb b [] = [] then WarnNoFiles fld b n
             else InfoTakingAll fld b n (length (dict_get fb b []))])" for g
    using assms(2) by (simp add: Let_def)
  have whole: "sample_for_folder rnd fld row fb rng =
           (case sample_loop rnd fld fb pre rng of
              (s1, r1, m1) \<Rightarrow>
                (case sample_loop rnd fld fb post r1 of
                   (s2, r2, m2) \<Rightarrow>
                     Inr (s1 @ dict_get fb b [] @ s2, r2,
                          m1 @ [if dict_get fb b [] = [] then WarnNoFiles fld b n
                                else InfoTakingAll fld b n (length (dict_get fb b []))] @ m2)))"
    unfolding sample_for_folder_split [OF assms(1)] sample_loop_take_all [OF assms(2)]
    by (simp split: prod.splits)
  from step whole show ?thesis by simp
qed

theorem take_all_without_randomness_witness:
  "requested_loop ([''Folder'', ''Samples [0, 1)'', ''Samples [5, 10)''],
                   [StrCell ''podcastA'', IntCell 2, FloatCell NaN]) (map fst BUCKET_DEFS) []
     = Inr ([] @ (''[0, 1)'', 2) # [])
   \<and> int (length (dict_get [(''[0, 1)'', [example_file ''a.wav'' 0.5, example_file ''b.wav'' 0.8])]
                   ''[0, 1)'' [])) \<le> 2
   \<and> sample_for_folder (example_random :: (nat, FileInfo) pyrandom) ''podcastA''
         ([''Folder'', ''Samples [0, 1)'', ''Samples [5, 10)''],
          [StrCell ''podcastA'', IntCell 2, FloatCell NaN])
         [(''[0, 1)'', [example_file ''a.wav'' 0.5, example_file ''b.wav'' 0.8])] 7
       = Inr ([example_file ''a.wav'' 0.5, example_file ''b.wav'' 0.8], 7,
              [InfoTakingAll ''podcastA'' ''[0, 1)'' 2 2])"
proof -
  have le: "int (length (dict_get [(''[0, 1)'', [example_file ''a.wav'' 0.5, example_file ''b.wav'' 0.8])]
                   ''[0, 1)'' [])) \<le> 2"
    by (simp add: dict_get_def)
  from take_all_without_randomness [OF example_request le, of example_random "''podcastA''" 7]
  have "sample_for_folder (example_random :: (nat, FileInfo) pyrandom) ''podcastA''
         ([''Folder'', ''Samples [0, 1)'', ''Samples [5, 10)''],
          [StrCell ''podcastA'', IntCell 2, FloatCell NaN])
         [(''[0, 1)'', [example_file ''a.wav'' 0.5, example_file ''b.wav'' 0.8])] 7
       = Inr ([example_file ''a.wav'' 0.5, example_file ''b.wav'' 0.8], 7,
              [InfoTakingAll ''podcastA'' ''[0, 1)'' 2 2])"
    by (simp add: dict_get_def)
  with example_request le show ?thesis by blast
qed

subsection \<open>C4: a run is reproducible from its seed\<close>

text \<open>
  Claim C4. A run of \<^verbatim>\<open>run_sampling\<close> is a function of the plan file, the host and the
  state of the generator built from the seed: two runs whose seeds give the same
  generator state return the same manifest and messages. The generator is built once,
  from the seed, and it is consumed in the fixed traversal order: the files that the
  loop over the rows selects, and the state it leaves, are those of running the steps of
  the traversal (rows in plan order, within a row the eight labels in their fixed order)
  one after the other on that one generator, each draw starting from the state the draw
  before it left; the manifest is that selection, deduplicated. The same holds for one
  folder and its buckets. In particular the rows after any prefix of the plan start from
  the state the prefix left, the requested buckets of a row are the requested labels in
  the fixed order, and the buckets after any prefix of them start from the state the
  prefix left.
\<close>

theorem run_sampling_deterministic:
  "(Random rnd seed1 = Random rnd seed2 \<longrightarrow>
      run_sampling h rnd plan_csv audio_root output_csv seed1
        = run_sampling h rnd plan_csv audio_root output_csv seed2)
   \<and> (\<forall>manifest msgs.
        run_sampling h rnd plan_csv audio_root output_csv seed1 = Inr (manifest, msgs) \<longrightarrow>
        (\<exists>plan_df files msgs1 all_selected rng' msgs2.
           load_sampling_plan h plan_csv = Inr plan_df
         \<and> build_file_index h audio_root plan_df = Inr (files, msgs1)
         \<and> sampling_rows h rnd (build_folder_bucket_map files) (iterrows plan_df)
               (Random rnd seed1) = Inr (all_selected, rng', msgs2)
         \<and> run_steps rnd (traversal h (build_folder_bucket_map files) (iterrows plan_df))
               (Random rnd seed1) = (all_selected, rng')
         \<and> manifest = map (manifest_of h) (final_list_of all_selected)))
   \<and> (\<forall>selected rng' msgs.
        sampling_rows h rnd fbm plan_rows rng = Inr (selected, rng', msgs) \<longrightarrow>
        run_steps rnd (traversal h fbm plan_rows) rng = (selected, rng'))
   \<and> (\<forall>selected rng' msgs.
        sample_for_folder rnd fld row fb rng = Inr (selected, rng', msgs) \<longrightarrow>
        run_steps rnd (concat (map (bucket_steps fb row) (map fst BUCKET_DEFS))) rng
          = (selected, rng'))
   \<and> sampling_rows h rnd fbm (rows1 @ rows2) rng =
        (case sampling_rows h rnd fbm rows1 rng of
           Inl e \<Rightarrow> Inl e
         | Inr (s1, r1, m1) \<Rightarrow>
             (case sampling_rows h rnd fbm rows2 r1 of
                Inl e \<Rightarrow> Inl e
              | Inr (s2, r2, m2) \<Rightarrow> Inr (s1 @ s2, r2, m1 @ m2)))
   \<and> (\<forall>requested. requested_loop row (map fst BUCKET_DEFS) [] = Inr requested \<longrightarrow>
          map fst requested = filter (\<lambda>b. b \<in> fst ` set requested) (map fst BUCKET_DEFS))
   \<and> sample_loop rnd fld fb (req1 @ req2) rng =
        (case sample_loop rnd fld fb req1 rng of
           (s1, r1, m1) \<Rightarrow>
             (case sample_loop rnd fld fb req2 r1 of
                (s2, r2, m2) \<Rightarrow> (s1 @ s2, r2, m1 @ m2)))"
proof -
  have a: "Random rnd seed1 = Random rnd seed2 \<longrightarrow>
      run_sampling h rnd plan_csv audio_root output_csv seed1
        = run_sampling h rnd plan_csv audio_root output_csv seed2"
    by (simp add: run_sampling_def)
  have b: "\<exists>plan_df files msgs1 all_selected rng' msgs2.
           load_sampling_plan h plan_csv = Inr plan_df
         \<and> build_file_index h audio_root plan_df = Inr (files, msgs1)
         \<and> sampling_rows h rnd (build_folder_bucket_map files) (iterrows plan_df)
               (Random rnd seed1) = Inr (all_selected, rng', msgs2)
         \<and> run_steps rnd (traversal h (build_folder_bucket_map files) (iterrows plan_df))
               (Random rnd seed1) = (all_selected, rng')
         \<and> manifest = map (manifest_of h) (final_list_of all_selected)"
    if "run_sampling h rnd plan_csv audio_root output_csv seed1 = Inr (manifest, msgs)"
    for manifest msgs
    using that
  proof (rule run_sampling_Inr)
    fix plan_df files msgs1 all_selected rng' msgs2
    assume l: "load_sampling_plan h plan_csv = Inr plan_df"
      and i: "build_file_index h audio_root plan_df = Inr (files, msgs1)"
      and s: "sampling_rows h rnd (build_folder_bucket_map files) (iterrows plan_df)
               (Random rnd seed1) = Inr (all_selected, rng', msgs2)"
      and m: "manifest = map (manifest_of h) (final_list_of all_selected)"
    from s have "run_steps rnd (traversal h (build_folder_bucket_map files) (iterrows plan_df))
               (Random rnd seed1) = (all_selected, rng')"
      by (rule sampling_rows_steps)
    with l i s m show ?thesis by blast
  qed
  have c: "map fst requested = filter (\<lambda>b. b \<in> fst ` set requested) (map fst BUCKET_DEFS)"
    if "requested_loop row (map fst BUCKET_DEFS) [] = Inr requested" for requested
    using requested_loop_order [OF that BUCKET_DEFS_names(1)] by simp
  have d: "run_steps rnd (traversal h fbm plan_rows) rng = (selected, rng')"
    if "sampling_rows h rnd fbm plan_rows rng = Inr (selected, rng', msgs)" for selected rng' msgs
    using that by (rule sampling_rows_steps)
  have e: "run_steps rnd (concat (map (bucket_steps fb row) (map fst BUCKET_DEFS))) rng
          = (selected, rng')"
    if "sample_for_folder rnd fld row fb rng = Inr (selected, rng', msgs)" for selected rng' msgs
    using that by (rule sample_for_folder_steps)
  from a b c d e show ?thesis
    by (simp only: sampling_rows_append sample_loop_append) blast
qed

theorem run_sampling_deterministic_witness:
  "Random (example_random :: (nat, FileInfo) pyrandom) 42 = Random example_random (- 42)
   \<and> run_sampling example_host example_random ''plan.csv'' ''/data'' ''out.csv'' 42
       = run_sampling example_host example_random ''plan.csv'' ''/data'' ''out.csv'' (- 42)
   \<and> run_sampling example_host example_random ''plan.csv'' ''/data'' ''out.csv'' 42
       = Inr (example_manifest, example_messages)
   \<and> (\<exists>plan_df files all_selected rng'.
         run_steps example_random
           (traversal example_host (build_folder_bucket_map files) (iterrows plan_df))
           (Random example_random 42) = (all_selected, rng')
       \<and> example_manifest = map (manifest_of example_host) (final_list_of all_selected))
   \<and> run_steps example_random
         [Draw [example_file ''a.wav'' 0.5, example_file ''b.wav'' 0.8] 1,
          TakeAll [example_file ''c.flac'' 7],
          Draw [example_file ''a.wav'' 0.5, example_file ''b.wav'' 0.8] 1,
          TakeAll [example_file ''c.flac'' 7]] 42
       = ([example_file ''a.wav'' 0.5, example_file ''c.flac'' 7,
           example_file ''b.wav'' 0.8, example_file ''c.flac'' 7], 44)
   \<and> requested_loop ([''Folder'', ''Samples [0, 1)'', ''Samples [5, 10)''],
                   [StrCell ''podcastA'', IntCell 2, FloatCell NaN]) (map fst BUCKET_DEFS) []
       = Inr [(''[0, 1)'', 2)]
   \<and> map fst [(''[0, 1)'', 2 :: int)]
       = filter (\<lambda>b. b \<in> fst ` set [(''[0, 1)'', 2 :: int)]) (map fst BUCKET_DEFS)"
proof -
  have s: "Random (example_random :: (nat, FileInfo) pyrandom) 42 = Random example_random (- 42)"
    by (simp add: example_random_def)
  have r: "requested_loop ([''Folder'', ''Samples [0, 1)'', ''Samples [5, 10)''],
                   [StrCell ''podcastA'', IntCell 2, FloatCell NaN]) (map fst BUCKET_DEFS) []
       = Inr [(''[0, 1)'', 2)]"
    using example_request by simp
  note t = run_sampling_deterministic [of example_random 42 "- 42" example_host "''plan.csv''"
      "''/data''" "''out.csv''"
      "[(''podcastA'', [(''[0, 1)'', [example_file ''a.wav'' 0.5, example_file ''b.wav'' 0.8]),
                       (''[5, 10)'', [example_file ''c.flac'' 7])])]"
      "[(''Folder'' # example_columns, example_row), (''Folder'' # example_columns, example_ghost_row),
        (''Folder'' # example_columns, example_row)]" 42 _
      "([''Folder'', ''Samples [0, 1)'', ''Samples [5, 10)''],
                   [StrCell ''podcastA'', IntCell 2, FloatCell NaN])"]
  note t1 = t [THEN conjunct1]
  note t2 = t [THEN conjunct2, THEN conjunct1, rule_format]
  note t3 = t [THEN conjunct2, THEN conjunct2, THEN conjunct1, rule_format]
  note t6 = t [THEN conjunct2, THEN conjunct2, THEN conjunct2, THEN conjunct2, THEN conjunct2,
               THEN conjunct1, rule_format]
  from t1 s have a: "run_sampling example_host example_random ''plan.csv'' ''/data'' ''out.csv'' 42
       = run_sampling example_host example_random ''plan.csv'' ''/data'' ''out.csv'' (- 42)"
    by (rule mp)
  from t2 [OF example_run] obtain plan_df files all_selected rng' where
    x: "run_steps example_random
           (traversal example_host (build_folder_bucket_map files) (iterrows plan_df))
           (Random example_random 42) = (all_selected, rng')"
    and y: "example_manifest = map (manifest_of example_host) (final_list_of all_selected)"
    by (elim exE conjE) (rule that)
  have b: "\<exists>plan_df files all_selected rng'.
         run_steps example_random
           (traversal example_host (build_folder_bucket_map files) (iterrows plan_df))
           (Random example_random 42) = (all_selected, rng')
       \<and> example_manifest = map (manifest_of example_host) (final_list_of all_selected)"
    by (rule exI [of _ plan_df], rule exI [of _ files], rule exI [of _ all_selected],
        rule exI [of _ rng'], rule conjI [OF x y])
  from t3 [OF example_rows_run]
  have "run_steps example_random
         (traversal example_host
            [(''podcastA'', [(''[0, 1)'', [example_file ''a.wav'' 0.5, example_file ''b.wav'' 0.8]),
                            (''[5, 10)'', [example_file ''c.flac'' 7])])]
            [(''Folder'' # example_columns, example_row),
             (''Folder'' # example_columns, example_ghost_row),
             (''Folder'' # example_columns, example_row)]) 42
       = ([example_file ''a.wav'' 0.5, example_file ''c.flac'' 7,
           example_file ''b.wav'' 0.8, example_file ''c.flac'' 7], 44)" .
  then have d: "run_steps example_random
         [Draw [example_file ''a.wav'' 0.5, example_file ''b.wav'' 0.8] 1,
          TakeAll [example_file ''c.flac'' 7],
          Draw [example_file ''a.wav'' 0.5, example_file ''b.wav'' 0.8] 1,
          TakeAll [example_file ''c.flac'' 7]] 42
       = ([example_file ''a.wav'' 0.5, example_file ''c.flac'' 7,
           example_file ''b.wav'' 0.8, example_file ''c.flac'' 7], 44)"
    by (simp only: example_traversal)
  from t6 [OF r] have c: "map fst [(''[0, 1)'', 2 :: int)]
       = filter (\<lambda>b. b \<in> fst ` set [(''[0, 1)'', 2 :: int)]) (map fst BUCKET_DEFS)" .
  from s a example_run b d r c show ?thesis by (intro conjI)
qed

subsection \<open>C5: the manifest holds every pair of folder and path once\<close>

text \<open>
  Claim C5. The manifest that \<^verbatim>\<open>run_sampling\<close> writes holds every pair (folder, absolute
  path) at most once. The final list is the accumulated list deduplicated by that pair:
  its pairs are exactly the pairs of the accumulated list, each once, and the record kept
  for a pair is the last one accumulated with it (last write wins). So a plan that names
  a folder twice yields every selected pair exactly once.
\<close>

theorem manifest_pairs_unique:
  "(\<forall>manifest msgs.
      run_sampling h rnd plan_csv audio_root output_csv seed = Inr (manifest, msgs) \<longrightarrow>
      distinct (map (\<lambda>r. (m_folder r, m_full_path r)) manifest))
   \<and> distinct (map (\<lambda>fi. (folder fi, path fi)) (final_list_of all_selected))
   \<and> (\<lambda>fi. (folder fi, path fi)) ` set (final_list_of all_selected)
        = (\<lambda>fi. (folder fi, path fi)) ` set all_selected
   \<and> (\<forall>fi. fi \<in> set (final_list_of all_selected) \<longleftrightarrow>
          find (\<lambda>g. (folder g, path g) = (folder fi, path fi)) (rev all_selected) = Some fi)"
proof -
  have "distinct (map (\<lambda>r. (m_folder r, m_full_path r)) manifest)"
    if "run_sampling h rnd plan_csv audio_root output_csv seed = Inr (manifest, msgs)"
    for manifest msgs
    using that
  proof (rule run_sampling_Inr)
    fix sel
    assume "manifest = map (manifest_of h) (final_list_of sel)"
    then show ?thesis by (simp only: manifest_keys final_list_distinct)
  qed
  then show ?thesis
    using final_list_distinct final_list_key_set final_list_member by blast
qed

theorem manifest_pairs_unique_witness:
  "run_sampling example_host example_random ''plan.csv'' ''/data'' ''out.csv'' 42 =
     Inr (example_manifest, example_messages)
   \<and> distinct (map (\<lambda>r. (m_folder r, m_full_path r)) example_manifest)"
  using manifest_pairs_unique [of example_host example_random "''plan.csv''" "''/data''" "''out.csv''" 42 "[]"]
    example_run
  by simp

subsection \<open>C6: which columns of a row produce a request\<close>

text \<open>
  Claim C6, as the code has it. Building the request map raises exactly when some
  Samples column of the row is present, is not missing (NaN) and \<^verbatim>\<open>int\<close> of its value
  raises, as it does for text that is no integer literal and for an infinite float.
  Otherwise a bucket has a request \<open>n\<close> exactly when its column is present, the value is
  not missing, and \<^verbatim>\<open>int\<close> of it is \<open>n > 0\<close>: an absent column, a missing value and a
  count that is not positive give no request.
\<close>

theorem sample_for_folder_requests:
  "(isl (sample_for_folder rnd fld row fb rng) \<longleftrightarrow>
      (\<exists>b \<in> set (map fst BUCKET_DEFS). in_index (''Samples '' @ b) row
          \<and> \<not> isna (cell_at row (''Samples '' @ b))
          \<and> isl (py_int (cell_at row (''Samples '' @ b)))))
   \<and> (\<forall>requested. requested_loop row (map fst BUCKET_DEFS) [] = Inr requested \<longrightarrow>
          sample_for_folder rnd fld row fb rng = Inr (sample_loop rnd fld fb requested rng)
        \<and> (\<forall>b n. map_of requested b = Some n \<longleftrightarrow>
              b \<in> set (map fst BUCKET_DEFS) \<and> in_index (''Samples '' @ b) row
              \<and> \<not> isna (cell_at row (''Samples '' @ b))
              \<and> py_int (cell_at row (''Samples '' @ b)) = Inr n \<and> 0 < n))"
proof -
  let ?bs = "map fst BUCKET_DEFS"
  let ?bad = "\<exists>b \<in> set ?bs. in_index (''Samples '' @ b) row
          \<and> \<not> isna (cell_at row (''Samples '' @ b))
          \<and> isl (py_int (cell_at row (''Samples '' @ b)))"
  have isl_iff: "isl (sample_for_folder rnd fld row fb rng) \<longleftrightarrow> isl (requested_loop row ?bs [])"
    by (simp add: sample_for_folder_def split: sum.splits)
  have bad_isl: "isl (requested_loop row ?bs [])" if ?bad
  proof -
    from that obtain b where b: "b \<in> set ?bs" "in_index (''Samples '' @ b) row"
      "isl (requested_count row (''Samples '' @ b))"
      by (auto simp: requested_count_isl)
    then obtain e where "requested_count row (''Samples '' @ b) = Inl e"
      by (cases "requested_count row (''Samples '' @ b)") auto
    with b show ?thesis by (blast intro: requested_loop_error)
  qed
  have good: "\<exists>r. requested_loop row ?bs [] = Inr r
      \<and> (\<forall>b. map_of r b =
            (if b \<in> set ?bs \<and> in_index (''Samples '' @ b) row
                 \<and> 0 < projr (requested_count row (''Samples '' @ b))
             then Some (projr (requested_count row (''Samples '' @ b))) else map_of [] b))"
    if "\<not> ?bad"
  proof (rule requested_loop_ok)
    show "\<forall>b \<in> set ?bs. in_index (''Samples '' @ b) row \<longrightarrow>
            \<not> isl (requested_count row (''Samples '' @ b))"
      using that by (auto simp: requested_count_isl)
  qed
  have first: "isl (sample_for_folder rnd fld row fb rng) \<longleftrightarrow> ?bad"
  proof
    assume a: "isl (sample_for_folder rnd fld row fb rng)"
    show ?bad
    proof (rule ccontr)
      assume "\<not> ?bad"
      from good [OF this] obtain r where "requested_loop row ?bs [] = Inr r" by blast
      with a isl_iff show False by simp
    qed
  next
    assume ?bad
    with bad_isl isl_iff show "isl (sample_for_folder rnd fld row fb rng)" by blast
  qed
  have second: "sample_for_folder rnd fld row fb rng = Inr (sample_loop rnd fld fb requested rng)
        \<and> (\<forall>b n. map_of requested b = Some n \<longleftrightarrow>
              b \<in> set ?bs \<and> in_index (''Samples '' @ b) row
              \<and> \<not> isna (cell_at row (''Samples '' @ b))
              \<and> py_int (cell_at row (''Samples '' @ b)) = Inr n \<and> 0 < n)"
    if req: "requested_loop row ?bs [] = Inr requested" for requested
  proof -
    from req bad_isl have nb: "\<not> ?bad" by auto
    from good [OF nb] req
    have m: "\<And>b. map_of requested b =
            (if b \<in> set ?bs \<and> in_index (''Samples '' @ b) row
                 \<and> 0 < projr (requested_count row (''Samples '' @ b))
             then Some (projr (requested_count row (''Samples '' @ b))) else None)"
      by auto
    have conv: "\<not> isl (requested_count row (''Samples '' @ b))"
      if "b \<in> set ?bs" "in_index (''Samples '' @ b) row" for b
      using nb that by (auto simp: requested_count_isl)
    have "map_of requested b = Some n \<longleftrightarrow>
              b \<in> set ?bs \<and> in_index (''Samples '' @ b) row
              \<and> \<not> isna (cell_at row (''Samples '' @ b))
              \<and> py_int (cell_at row (''Samples '' @ b)) = Inr n \<and> 0 < n" for b n
    proof (cases "b \<in> set ?bs \<and> in_index (''Samples '' @ b) row")
      case False
      then show ?thesis using m [of b] by auto
    next
      case True
      with conv have "\<not> isl (requested_count row (''Samples '' @ b))" by blast
      then obtain k where k: "requested_count row (''Samples '' @ b) = Inr k"
        by (cases "requested_count row (''Samples '' @ b)") simp_all
      have "map_of requested b = Some n \<longleftrightarrow> k = n \<and> 0 < n"
        using m [of b] True k by auto
      also have "\<dots> \<longleftrightarrow> requested_count row (''Samples '' @ b) = Inr n \<and> 0 < n"
        using k by auto
      finally show ?thesis using True by (simp add: requested_count_Inr)
    qed
    with req show ?thesis by (simp add: sample_for_folder_def)
  qed
  from first second show ?thesis by blast
qed

theorem sample_for_folder_requests_witness:
  "requested_loop ([''Folder'', ''Samples [0, 1)'', ''Samples [5, 10)''],
                   [StrCell ''podcastA'', IntCell 2, FloatCell NaN]) (map fst BUCKET_DEFS) []
     = Inr [(''[0, 1)'', 2)]
   \<and> sample_for_folder (example_random :: (nat, FileInfo) pyrandom) ''podcastA''
         ([''Folder'', ''Samples [0, 1)'', ''Samples [5, 10)''],
          [StrCell ''podcastA'', IntCell 2, FloatCell NaN]) [] 7
       = Inr ([], 7, [WarnNoFiles ''podcastA'' ''[0, 1)'' 2])
   \<and> map_of [(''[0, 1)'', 2 :: int)] ''[5, 10)'' = None"
proof -
  have r: "requested_loop ([''Folder'', ''Samples [0, 1)'', ''Samples [5, 10)''],
                   [StrCell ''podcastA'', IntCell 2, FloatCell NaN]) (map fst BUCKET_DEFS) []
     = Inr [(''[0, 1)'', 2)]"
    using example_request by simp
  from sample_for_folder_requests [of example_random "''podcastA''" _ "[]" 7] r
  have "sample_for_folder (example_random :: (nat, FileInfo) pyrandom) ''podcastA''
         ([''Folder'', ''Samples [0, 1)'', ''Samples [5, 10)''],
          [StrCell ''podcastA'', IntCell 2, FloatCell NaN]) [] 7
       = Inr (sample_loop example_random ''podcastA'' [] [(''[0, 1)'', 2)] 7)"
    by blast
  then show ?thesis using r by (simp add: dict_get_def)
qed

text \<open>
  The claim as stated fails for a non-numeric value: with the text \<open>abc\<close> in the column
  \<open>Samples [0, 1)\<close> the sampler raises ValueError instead of skipping the bucket.
\<close>

theorem non_numeric_request_raises:
  "\<forall>rnd fld fb rng.
     sample_for_folder (rnd :: (nat, FileInfo) pyrandom) fld
       ([''Folder'', ''Samples [0, 1)''], [StrCell ''podcastA'', StrCell ''abc'']) fb rng
     = Inl ValueError"
  by (simp add: sample_for_folder_def BUCKET_DEFS_def in_index_def requested_count_def cell_at_def
      int_of_str_def strip_def is_space_def parse_nat_def digit_val_def)

subsection \<open>C7: the plan needs a Folder or group column\<close>

text \<open>
  Claim C7. When the plan file can be read, loading raises (a ValueError) exactly when the
  table has neither a column Folder nor a column group; with group and without Folder
  the column is renamed and loading succeeds; a table with Folder is returned as it is;
  and every plan that loading returns has a column Folder.
\<close>

theorem load_sampling_plan_columns:
  assumes "read_csv h plan_csv '','' = Inr df"
  shows "(isl (load_sampling_plan h plan_csv)
            \<longleftrightarrow> ''Folder'' \<notin> set (columns df) \<and> ''group'' \<notin> set (columns df))
       \<and> (isl (load_sampling_plan h plan_csv) \<longrightarrow> load_sampling_plan h plan_csv = Inl ValueError)
       \<and> (''group'' \<in> set (columns df) \<and> ''Folder'' \<notin> set (columns df) \<longrightarrow>
            load_sampling_plan h plan_csv = Inr (rename_columns ''group'' ''Folder'' df))
       \<and> (''Folder'' \<in> set (columns df) \<longrightarrow> load_sampling_plan h plan_csv = Inr df)
       \<and> (\<forall>plan_df. load_sampling_plan h plan_csv = Inr plan_df \<longrightarrow>
            ''Folder'' \<in> set (columns plan_df))"
  using assms
  by (auto simp: load_sampling_plan_def rename_columns_def Let_def)

theorem load_sampling_plan_columns_witness:
  "read_csv example_host ''plan.csv'' '','' = Inr example_plan
   \<and> ''group'' \<in> set (columns example_plan) \<and> ''Folder'' \<notin> set (columns example_plan)
   \<and> load_sampling_plan example_host ''plan.csv''
       = Inr (rename_columns ''group'' ''Folder'' example_plan)
   \<and> \<not> isl (load_sampling_plan example_host ''plan.csv'')"
proof -
  have c: "''group'' \<in> set (columns example_plan)" "''Folder'' \<notin> set (columns example_plan)"
    by (simp_all add: example_plan_def example_columns_def)
  from load_sampling_plan_columns [OF example_read] c example_read show ?thesis by simp
qed

subsection \<open>C8: the two classifiers\<close>




subsection \<open>C9: a folder that is not on disk\<close>




subsection \<open>C10: the transcript is copied when the audio is missing\<close>



end
